theory Spec2Isabelle
  imports Main
begin

section \<open>JavaScript values\<close>

text \<open>
  The values user code can throw or pass where the runner only inspects truthiness.
  \<open>JError m\<close> is an \<open>Error\<close> object with message \<open>m\<close>, \<open>JObj n\<close> any other object.
\<close>

datatype jsval =
    JUndefined
  | JNull
  | JBool bool
  | JNum int
  | JNaN
  | JStr string
  | JError string
  | JObj nat

fun truthy :: "jsval \<Rightarrow> bool" where
  "truthy JUndefined = False"
| "truthy JNull = False"
| "truthy (JBool b) = b"
| "truthy (JNum n) = (n \<noteq> 0)"
| "truthy JNaN = False"
| "truthy (JStr s) = (s \<noteq> [])"
| "truthy (JError m) = True"
| "truthy (JObj n) = True"

section \<open>The jUnitList reporter (src/Reporter/jUnitList.ts)\<close>

subsection \<open>Data\<close>

text \<open>
  A reading of the clock, as \<open>new Date()\<close> gives it: the calendar day and the
  milliseconds since midnight. \<open>getDate\<close> is the day of the month.
\<close>

record jsdate =
  d_year :: int
  d_month :: nat
  d_date :: nat
  d_millis :: nat

definition getDate :: "jsdate \<Rightarrow> int" where
  "getDate d = int (d_date d)"

definition same_calendar_day :: "jsdate \<Rightarrow> jsdate \<Rightarrow> bool" where
  "same_calendar_day a b =
     (d_year a = d_year b \<and> d_month a = d_month b \<and> d_date a = d_date b)"

text \<open>The error object of a failure, with the four properties \<open>printError\<close> reads.\<close>

record err =
  actual :: jsval
  expected :: jsval
  stack :: jsval
  message :: jsval

text \<open>
  Durations are JavaScript numbers, that is doubles, and the reporter only adds them up.
  Their type \<open>'n\<close> is left open: it needs a zero and an addition, and nothing is
  assumed about that arithmetic. The counters, which start at 0 and grow by 1, and the
  days of the month are integers.
\<close>

text \<open>The payload of a \<open>test:end\<close> event, as \<open>onTestEnd\<close> destructures it.\<close>

record 'n test_end =
  ev_error :: "err option"
  ev_status :: string
  ev_title :: string
  ev_duration :: 'n
  ev_regression :: bool
  ev_regressionMessage :: string

text \<open>The \<open>error\<close> of an \<open>end\<close> event: a falsy value, an array of failures or one failure.\<close>

record failure =
  f_error :: err
  f_title :: string

datatype end_error = NoErrors | ErrorArray "failure list" | SingleError failure

text \<open>
  What the reporter writes to the console. Colouring (chalk), padding (right-pad), the
  rendering of a duration (ms) and the diff text (variable-diff) are external libraries,
  so a line keeps the values handed to them: \<open>TestLine pad status title d\<close> is the
  line \<open>pad icon(status) title (ms(d))\<close>, and \<open>Report stats t\<close> is the summary whose
  last line is \<open>time : ms(t)\<close>.
\<close>

datatype 'n out =
    Blank
  | TestLine string string string 'n
  | MessageLine string string
  | GroupLine string
  | ZeroTestsRan
  | ErrorsHeader
  | ErrorTitle int string
  | ErrorStack jsval
  | ErrorItself err
  | DiffLines jsval jsval
  | PassedBanner
  | FailedBanner
  | Report "(string \<times> int) list" int

record final_stats =
  total :: int
  passed :: int
  failed :: int
  skipped :: int
  regression :: int
  todo :: int

record 'n test_case =
  tc_classname :: string
  tc_name :: string
  tc_time :: 'n

text \<open>
  A suite object holds in \<open>testcase\<close> the array \<open>this.testSuite\<close> itself, not a copy
  of it: \<open>ts_testcase\<close> is the address of that array.
\<close>

record 'n test_suite =
  ts_failures :: int
  ts_name :: string
  ts_package :: string
  ts_test :: int
  ts_time :: 'n
  ts_testcase :: nat

text \<open>
  The reporter object together with the four module-level counters of the file
  (\<open>count\<close>, \<open>failCount\<close>, \<open>testSuitesDuration\<close>, \<open>testSuiteDuration\<close>), the console
  and the documents appended to \<open>result.xml\<close> (each the duration and the suites as
  they are serialised, with the test cases their array holds at that time).

  The arrays of test cases are objects that are shared: \<open>arrays\<close> is the store of
  the arrays created so far, by address, \<open>allocated\<close> the next free address, and
  \<open>testSuite\<close> the address of the array \<open>this.testSuite\<close> refers to.
\<close>

record 'n Min =
  min_activeGroup :: "string option"
  start :: "int option"
  testSuite :: nat
  arrays :: "nat \<Rightarrow> 'n test_case list"
  allocated :: nat
  testSuites :: "'n test_suite list"
  finalStats :: final_stats
  count :: int
  failCount :: int
  testSuitesDuration :: 'n
  testSuiteDuration :: 'n
  console :: "'n out list"
  resultXml :: "('n \<times> ('n test_suite \<times> 'n test_case list) list) list"

definition testsStatuses :: "string list" where
  "testsStatuses = [''passed'', ''failed'', ''skipped'', ''todo'']"

text \<open>The constructor: \<open>this.testSuite = []\<close> creates the first array, at address 0.\<close>

definition new_Min :: "('n::zero) Min" where
  "new_Min =
     \<lparr> min_activeGroup = None, start = None, testSuite = 0, arrays = (\<lambda>a. []),
       allocated = 1, testSuites = [],
       finalStats = \<lparr> total = 0, passed = 0, failed = 0, skipped = 0, regression = 0, todo = 0 \<rparr>,
       count = 0, failCount = 0, testSuitesDuration = 0, testSuiteDuration = 0,
       console = [], resultXml = [] \<rparr>"

subsection \<open>Methods\<close>

definition hasDiff :: "err \<Rightarrow> bool" where
  "hasDiff error = (actual error \<noteq> JUndefined \<or> expected error \<noteq> JUndefined)"

definition log :: "'n out \<Rightarrow> 'n Min \<Rightarrow> 'n Min" where
  "log line r = r\<lparr> console := console r @ [line] \<rparr>"

definition blankLine :: "'n Min \<Rightarrow> 'n Min" where
  "blankLine r = r\<lparr> console := console r @ [Blank] \<rparr>"

text \<open>\<open>this.finalStats[status]++\<close> for a status of \<open>testsStatuses\<close>.\<close>

definition bump_status :: "string \<Rightarrow> final_stats \<Rightarrow> final_stats" where
  "bump_status status fs =
     (if status = ''passed'' then fs\<lparr> passed := passed fs + 1 \<rparr>
      else if status = ''failed'' then fs\<lparr> failed := failed fs + 1 \<rparr>
      else if status = ''skipped'' then fs\<lparr> skipped := skipped fs + 1 \<rparr>
      else if status = ''todo'' then fs\<lparr> todo := todo fs + 1 \<rparr>
      else fs)"

definition statsKeys :: "final_stats \<Rightarrow> (string \<times> int) list" where
  "statsKeys fs =
     [(''total'', total fs), (''passed'', passed fs), (''failed'', failed fs),
      (''skipped'', skipped fs), (''regression'', regression fs), (''todo'', todo fs)]"

text \<open>
  \<open>generateReport\<close> builds the summary from the counters above zero and the time it is
  given, appends the XML document to \<open>result.xml\<close> and returns the summary.
\<close>

definition shown_stats :: "final_stats \<Rightarrow> (string \<times> int) list" where
  "shown_stats fs = filter (\<lambda>(stat, n). n > 0) (statsKeys fs)"

definition generateReport :: "int \<Rightarrow> 'n Min \<Rightarrow> 'n out \<times> 'n Min" where
  "generateReport end' r =
     (let report = Report (shown_stats (finalStats r)) end';
          testSuitesHeader = map (\<lambda>suite. (suite, arrays r (ts_testcase suite))) (testSuites r)
      in (report, r\<lparr> resultXml := resultXml r @ [(testSuitesDuration r, testSuitesHeader)] \<rparr>))"

definition onTestEnd :: "('n::plus) test_end \<Rightarrow> 'n Min \<Rightarrow> 'n Min" where
  "onTestEnd ev r =
     (if ev_status ev \<notin> set testsStatuses then r
      else
        let r1 = r\<lparr> finalStats := bump_status (ev_status ev) (finalStats r) \<rparr>;
            r2 = r1\<lparr> finalStats := (finalStats r1)\<lparr> total := total (finalStats r1) + 1 \<rparr> \<rparr>;
            r3 = (if ev_regression ev
                  then r2\<lparr> finalStats := (finalStats r2)\<lparr> regression := regression (finalStats r2) + 1 \<rparr> \<rparr>
                  else r2);
            pad = (case min_activeGroup r3 of
                     None \<Rightarrow> ''''
                   | Some t \<Rightarrow> if t \<noteq> [] then ''  '' else '''');
            r4 = log (TestLine pad (ev_status ev) (ev_title ev) (ev_duration ev)) r3;
            r5 = (if ev_regressionMessage ev \<noteq> []
                  then log (MessageLine (pad @ pad) (ev_regressionMessage ev)) r4
                  else r4);
            r6 = (if ev_error ev \<noteq> None then r5\<lparr> failCount := failCount r5 + 1 \<rparr> else r5);
            r7 = r6\<lparr> testSuiteDuration := testSuiteDuration r6 + ev_duration ev \<rparr>;
            testCase = \<lparr> tc_classname = '''', tc_name = ev_title ev, tc_time = ev_duration ev \<rparr>;
            r8 = r7\<lparr> count := count r7 + 1 \<rparr>
        in r8\<lparr> arrays := (arrays r8)(testSuite r8 := arrays r8 (testSuite r8) @ [testCase]) \<rparr>)"

text \<open>\<open>this.testSuite = []\<close> creates a new array and makes \<open>this.testSuite\<close> refer to it.\<close>

definition onGroupStart :: "string \<Rightarrow> 'n Min \<Rightarrow> 'n Min" where
  "onGroupStart title r =
     (let r1 = r\<lparr> min_activeGroup := Some title \<rparr>;
          r2 = blankLine r1;
          r3 = log (GroupLine title) r2
      in r3\<lparr> testSuite := allocated r3,
              arrays := (arrays r3)(allocated r3 := []),
              allocated := Suc (allocated r3) \<rparr>)"

text \<open>
  The suite that is pushed refers to the array \<open>this.testSuite\<close>, and
  \<open>this.testSuite\<close> goes on referring to it until the next \<open>group:start\<close>.
\<close>

definition onGroupEnd :: "('n::{zero,plus}) Min \<Rightarrow> 'n Min" where
  "onGroupEnd r =
     (let r1 = r\<lparr> min_activeGroup := None \<rparr>;
          suite = \<lparr> ts_failures = failCount r1, ts_name = '''', ts_package = '''',
                    ts_test = count r1, ts_time = testSuiteDuration r1,
                    ts_testcase = testSuite r1 \<rparr>;
          r2 = r1\<lparr> testSuites := testSuites r1 @ [suite] \<rparr>;
          r3 = r2\<lparr> testSuitesDuration := testSuitesDuration r2 + testSuiteDuration r2 \<rparr>
      in r3\<lparr> count := 0, failCount := 0, testSuiteDuration := 0 \<rparr>)"

definition printError :: "failure \<Rightarrow> int \<Rightarrow> 'n Min \<Rightarrow> 'n Min" where
  "printError f index r =
     (let error = f_error f;
          r1 = log (ErrorTitle (index + 1) (f_title f)) r;
          r2 = log (if hasDiff error then ErrorStack (message error)
                    else if truthy (stack error) then ErrorStack (stack error)
                    else if truthy (message error) then ErrorStack (message error)
                    else ErrorItself error) r1;
          r3 = (if hasDiff error then log (DiffLines (actual error) (expected error)) r2 else r2)
      in blankLine r3)"

fun printErrors :: "failure list \<Rightarrow> int \<Rightarrow> 'n Min \<Rightarrow> 'n Min" where
  "printErrors [] index r = r"
| "printErrors (f # fs) index r = printErrors fs (index + 1) (printError f index r)"

definition printStack :: "end_error \<Rightarrow> 'n Min \<Rightarrow> 'n Min" where
  "printStack errors r =
     (case errors of
        NoErrors \<Rightarrow> r
      | ErrorArray fs \<Rightarrow> printErrors fs 0 (blankLine (log ErrorsHeader (blankLine r)))
      | SingleError f \<Rightarrow> printError f 5 (blankLine (log ErrorsHeader (blankLine r))))"

definition onTestsEnd :: "jsdate \<Rightarrow> string \<Rightarrow> end_error \<Rightarrow> 'n Min \<Rightarrow> 'n Min" where
  "onTestsEnd now status error r =
     (let end' = getDate now - (case start r of None \<Rightarrow> 0 | Some d \<Rightarrow> d);
          r1 = blankLine r
      in if total (finalStats r1) = 0 then log ZeroTestsRan r1
         else
           let r2 = printStack error r1;
               r3 = log (if status = ''passed'' then PassedBanner else FailedBanner) r2;
               r4 = blankLine r3;
               (report, r5) = generateReport end' r4
           in r5\<lparr> console := console r5 @ [report] \<rparr>)"

definition onTestsStart :: "jsdate \<Rightarrow> 'n Min \<Rightarrow> 'n Min" where
  "onTestsStart now r = r\<lparr> start := Some (getDate now) \<rparr>"

text \<open>
  The events between \<open>start\<close> and \<open>end\<close>, and the reporter's reaction to a sequence
  of them (the handlers the constructor registers on the emitter).
\<close>

datatype 'n run_event = TestEnd "'n test_end" | GroupStart string | GroupEnd

fun on_event :: "('n::{zero,plus}) run_event \<Rightarrow> 'n Min \<Rightarrow> 'n Min" where
  "on_event (TestEnd ev) r = onTestEnd ev r"
| "on_event (GroupStart title) r = onGroupStart title r"
| "on_event GroupEnd r = onGroupEnd r"

fun on_events :: "('n::{zero,plus}) run_event list \<Rightarrow> 'n Min \<Rightarrow> 'n Min" where
  "on_events [] r = r"
| "on_events (e # es) r = on_events es (on_event e r)"

section \<open>The slim runner (SlimRunner/index.ts)\<close>

subsection \<open>Options, tests and groups\<close>

text \<open>A compiled pattern: its source and its flags.\<close>

datatype regexp = RegExp string string

text \<open>\<open>IOptions\<close>, the runner options; \<open>grep = None\<close> is the property left undefined.\<close>

record IOptions =
  bail :: bool
  timeout :: int
  grep :: "regexp option"

text \<open>
  The \<open>Partial<ITestOptions>\<close> the declaration functions hand to \<open>addTest\<close>:
  nothing, or one flag set to true.
\<close>

datatype test_option = Skip | SkipInCI | RunInCI | Regression

text \<open>
  Modelled from the spec: the classes \<open>Test\<close> and \<open>Group\<close> are imported by the slim
  runner and are not part of the sources at hand. Following the data model of the
  specification, a test keeps its title, its callback (named by a number), its
  skip, skipInCI, runInCI and regression flags and the timeout it inherits from its group;
  a group keeps its title, the ordered sequence of its tests, four hook slots and the
  configuration snapshot (bail, timeout, grep) copied from the options it is created with.
\<close>

record Test =
  t_title :: string
  t_callback :: nat
  t_skip :: bool
  t_skipInCI :: bool
  t_runInCI :: bool
  t_regression :: bool
  t_timeout :: int

datatype hook_kind = Before | After | BeforeEach | AfterEach

record Group =
  g_title :: string
  g_tests :: "Test list"
  g_before :: "nat option"
  g_after :: "nat option"
  g_beforeEach :: "nat option"
  g_afterEach :: "nat option"
  g_bail :: bool
  g_timeout :: int
  g_grep :: "regexp option"

text \<open>Modelled from the spec: \<open>new Group(title, testArgsFn, hookArgsFn, options)\<close>.\<close>

definition new_Group :: "string \<Rightarrow> IOptions \<Rightarrow> Group" where
  "new_Group title options =
     \<lparr> g_title = title, g_tests = [],
       g_before = None, g_after = None, g_beforeEach = None, g_afterEach = None,
       g_bail = bail options, g_timeout = timeout options, g_grep = grep options \<rparr>"

text \<open>
  Modelled from the spec: \<open>group.test(title, callback, options)\<close> appends the new test
  to the group's sequence (insertion order is execution order).
\<close>

definition new_Test :: "string \<Rightarrow> nat \<Rightarrow> test_option option \<Rightarrow> int \<Rightarrow> Test" where
  "new_Test title callback options tmo =
     \<lparr> t_title = title, t_callback = callback,
       t_skip = (options = Some Skip), t_skipInCI = (options = Some SkipInCI),
       t_runInCI = (options = Some RunInCI), t_regression = (options = Some Regression),
       t_timeout = tmo \<rparr>"

definition Group_test :: "string \<Rightarrow> nat \<Rightarrow> test_option option \<Rightarrow> Group \<Rightarrow> Group" where
  "Group_test title callback options g =
     g\<lparr> g_tests := g_tests g @ [new_Test title callback options (g_timeout g)] \<rparr>"

text \<open>
  Modelled from the spec: \<open>group.before(cb)\<close>, \<open>group.after(cb)\<close>,
  \<open>group.beforeEach(cb)\<close> and \<open>group.afterEach(cb)\<close> fill the slot of their kind.
\<close>

fun Group_hook :: "hook_kind \<Rightarrow> nat \<Rightarrow> Group \<Rightarrow> Group" where
  "Group_hook Before cb g = g\<lparr> g_before := Some cb \<rparr>"
| "Group_hook After cb g = g\<lparr> g_after := Some cb \<rparr>"
| "Group_hook BeforeEach cb g = g\<lparr> g_beforeEach := Some cb \<rparr>"
| "Group_hook AfterEach cb g = g\<lparr> g_afterEach := Some cb \<rparr>"

subsection \<open>Declaration scripts and the module state\<close>

text \<open>
  User code reaches the module only through its exported functions, so a callback, a
  suite file or a hook is modelled by the calls it makes, in order: the five test
  declarations, \<open>test.group\<close> with the script of its callback, a hook registration on
  the group object handed to the enclosing callback, and a \<open>throw\<close>.
\<close>

datatype decl =
    DTest string nat
  | DSkip string nat
  | DSkipInCI string nat
  | DRunInCI string nat
  | DFailing string nat
  | DGroup string "decl list"
  | DHook hook_kind nat
  | DThrow jsval

text \<open>
  A runner hook of \<open>configure\<close>: the declarations its body makes, and how the promise
  it returns settles.
\<close>

datatype settle = Resolves | Rejects jsval | NeverSettles

datatype hook = Hook "decl list" settle

text \<open>
  Modelled from the spec: the \<open>Loader\<close> is an external collaborator; \<open>loader.files\<close>
  and \<open>loader.filter\<close> are taken to record their argument.
\<close>

record Loader =
  l_files :: "string list option"
  l_filter :: "nat option"

text \<open>
  The module-level variables. \<open>activeGroup\<close> is a reference to a group object that is
  also an element of \<open>groups\<close>: it is kept as the position of that object in the list.
  Reporter functions are named by numbers, \<open>listReporter\<close> being the default.
\<close>

record slim =
  groups :: "Group list"
  activeGroup :: "nat option"
  runnerOptions :: IOptions
  reporterFn :: nat
  beforeHooks :: "hook list"
  afterHooks :: "hook list"
  loader :: Loader

definition listReporter :: nat where
  "listReporter = 0"

definition initial :: slim where
  "initial =
     \<lparr> groups = [], activeGroup = None,
       runnerOptions = \<lparr> bail = False, timeout = 2000, grep = None \<rparr>,
       reporterFn = listReporter, beforeHooks = [], afterHooks = [],
       loader = \<lparr> l_files = None, l_filter = None \<rparr> \<rparr>"

subsection \<open>Declaring tests and groups\<close>

definition addTest :: "string \<Rightarrow> nat \<Rightarrow> test_option option \<Rightarrow> slim \<Rightarrow> slim" where
  "addTest title callback options s =
     (let (i, s1) =
            (case activeGroup s of
               None \<Rightarrow>
                 (length (groups s),
                  s\<lparr> activeGroup := Some (length (groups s)),
                     groups := groups s @ [new_Group ''root'' (runnerOptions s)] \<rparr>)
             | Some a \<Rightarrow> (a, s))
      in s1\<lparr> groups := (groups s1)[i := Group_test title callback options (groups s1 ! i)] \<rparr>)"

definition test :: "string \<Rightarrow> nat \<Rightarrow> slim \<Rightarrow> slim" where
  "test title callback s = addTest title callback None s"

definition skip :: "string \<Rightarrow> nat \<Rightarrow> slim \<Rightarrow> slim" where
  "skip title callback s = addTest title callback (Some Skip) s"

definition skipInCI :: "string \<Rightarrow> nat \<Rightarrow> slim \<Rightarrow> slim" where
  "skipInCI title callback s = addTest title callback (Some SkipInCI) s"

definition runInCI :: "string \<Rightarrow> nat \<Rightarrow> slim \<Rightarrow> slim" where
  "runInCI title callback s = addTest title callback (Some RunInCI) s"

definition failing :: "string \<Rightarrow> nat \<Rightarrow> slim \<Rightarrow> slim" where
  "failing title callback s = addTest title callback (Some Regression) s"

text \<open>
  \<open>test.group\<close>. A call that can throw returns the thrown value (\<open>None\<close> when it
  returns normally) and the state it leaves. The callback receives the new group object,
  here its position in \<open>groups\<close>.
\<close>

definition group ::
  "string \<Rightarrow> (nat \<Rightarrow> slim \<Rightarrow> jsval option \<times> slim) \<Rightarrow> slim \<Rightarrow> jsval option \<times> slim" where
  "group title callback s =
     (let i = length (groups s);
          s1 = s\<lparr> activeGroup := Some i,
                  groups := groups s @ [new_Group title (runnerOptions s)] \<rparr>
      in case callback i s1 of
           (Some e, s2) \<Rightarrow> (Some e, s2)
         | (None, s2) \<Rightarrow> (None, s2\<lparr> activeGroup := None \<rparr>))"

lemma group_cong [fundef_cong]:
  "title = title' \<Longrightarrow> s = s' \<Longrightarrow> (\<And>i s1. callback i s1 = callback' i s1) \<Longrightarrow>
   group title callback s = group title' callback' s'"
  by (simp add: group_def)

text \<open>
  Running a script. \<open>cur\<close> is the group object bound by the enclosing callback; at
  the top level of a file no such binding exists and a hook registration is a
  \<open>ReferenceError\<close>.
\<close>

fun exec :: "nat option \<Rightarrow> decl \<Rightarrow> slim \<Rightarrow> jsval option \<times> slim"
  and exec_all :: "nat option \<Rightarrow> decl list \<Rightarrow> slim \<Rightarrow> jsval option \<times> slim" where
  "exec cur (DTest title cb) s = (None, test title cb s)"
| "exec cur (DSkip title cb) s = (None, skip title cb s)"
| "exec cur (DSkipInCI title cb) s = (None, skipInCI title cb s)"
| "exec cur (DRunInCI title cb) s = (None, runInCI title cb s)"
| "exec cur (DFailing title cb) s = (None, failing title cb s)"
| "exec cur (DGroup title body) s = group title (\<lambda>i. exec_all (Some i) body) s"
| "exec cur (DHook k cb) s =
     (case cur of
        None \<Rightarrow> (Some (JError ''group is not defined''), s)
      | Some i \<Rightarrow> (None, s\<lparr> groups := (groups s)[i := Group_hook k cb (groups s ! i)] \<rparr>))"
| "exec cur (DThrow v) s = (Some v, s)"
| "exec_all cur [] s = (None, s)"
| "exec_all cur (d # ds) s =
     (case exec cur d s of
        (Some e, s1) \<Rightarrow> (Some e, s1)
      | (None, s1) \<Rightarrow> exec_all cur ds s1)"

subsection \<open>\<open>test.configure\<close>\<close>

text \<open>
  \<open>Partial<IConfigureOptions>\<close>. A property that is absent is \<open>None\<close>.
  \<open>before\<close> and \<open>after\<close> are checked with \<open>ow.array\<close>, so a value that is not an
  array can arrive; \<open>grep\<close> is a pattern or a raw string; \<open>o_timeout\<close> is present
  when the property is a number.
\<close>

datatype hooks_arg = HookArray "hook list" | NotArray jsval

datatype grep_arg = GrepRegExp regexp | GrepString string

record configure_options =
  o_reporterFn :: "nat option"
  o_bail :: "bool option"
  o_timeout :: "int option"
  o_files :: "string list option"
  o_filter :: "nat option"
  o_before :: "hooks_arg option"
  o_after :: "hooks_arg option"
  o_grep :: "grep_arg option"

definition no_options :: configure_options where
  "no_options =
     \<lparr> o_reporterFn = None, o_bail = None, o_timeout = None, o_files = None,
       o_filter = None, o_before = None, o_after = None, o_grep = None \<rparr>"

fun hooks_truthy :: "hooks_arg \<Rightarrow> bool" where
  "hooks_truthy (HookArray hs) = True"
| "hooks_truthy (NotArray v) = truthy v"

fun grep_truthy :: "grep_arg \<Rightarrow> bool" where
  "grep_truthy (GrepRegExp r) = True"
| "grep_truthy (GrepString s) = (s \<noteq> [])"

text \<open>Sequencing of steps that can throw: the first thrown value ends the call.\<close>

definition and_then ::
  "jsval option \<times> 's \<Rightarrow> ('s \<Rightarrow> jsval option \<times> 's) \<Rightarrow> jsval option \<times> 's" where
  "and_then r f = (case r of (Some e, s) \<Rightarrow> (Some e, s) | (None, s) \<Rightarrow> f s)"

definition set_reporterFn :: "configure_options \<Rightarrow> slim \<Rightarrow> slim" where
  "set_reporterFn options s =
     (case o_reporterFn options of Some f \<Rightarrow> s\<lparr> reporterFn := f \<rparr> | None \<Rightarrow> s)"

definition set_bail :: "configure_options \<Rightarrow> slim \<Rightarrow> slim" where
  "set_bail options s =
     (case o_bail options of
        Some b \<Rightarrow> s\<lparr> runnerOptions := (runnerOptions s)\<lparr> bail := b \<rparr> \<rparr>
      | None \<Rightarrow> s)"

definition set_timeout :: "configure_options \<Rightarrow> slim \<Rightarrow> slim" where
  "set_timeout options s =
     (case o_timeout options of
        Some n \<Rightarrow> s\<lparr> runnerOptions := (runnerOptions s)\<lparr> timeout := n \<rparr> \<rparr>
      | None \<Rightarrow> s)"

definition set_files :: "configure_options \<Rightarrow> slim \<Rightarrow> slim" where
  "set_files options s =
     (case o_files options of
        Some fs \<Rightarrow> s\<lparr> loader := (loader s)\<lparr> l_files := Some fs \<rparr> \<rparr>
      | None \<Rightarrow> s)"

definition set_filter :: "configure_options \<Rightarrow> slim \<Rightarrow> slim" where
  "set_filter options s =
     (case o_filter options of
        Some f \<Rightarrow> s\<lparr> loader := (loader s)\<lparr> l_filter := Some f \<rparr> \<rparr>
      | None \<Rightarrow> s)"

text \<open>\<open>ow(value, label, ow.array)\<close> throws unless the value is an array.\<close>

definition set_before :: "configure_options \<Rightarrow> slim \<Rightarrow> jsval option \<times> slim" where
  "set_before options s =
     (case o_before options of
        None \<Rightarrow> (None, s)
      | Some a \<Rightarrow>
          if hooks_truthy a
          then (case a of
                  HookArray hs \<Rightarrow> (None, s\<lparr> beforeHooks := hs \<rparr>)
                | NotArray v \<Rightarrow> (Some (JError ''Expected `configure.before` to be of type `array`''), s))
          else (None, s))"

definition set_after :: "configure_options \<Rightarrow> slim \<Rightarrow> jsval option \<times> slim" where
  "set_after options s =
     (case o_after options of
        None \<Rightarrow> (None, s)
      | Some a \<Rightarrow>
          if hooks_truthy a
          then (case a of
                  HookArray hs \<Rightarrow> (None, s\<lparr> afterHooks := hs \<rparr>)
                | NotArray v \<Rightarrow> (Some (JError ''Expected `configure.after` to be of type `array`''), s))
          else (None, s))"

text \<open>
  \<open>newRegExp\<close> is the constructor \<open>new RegExp(string)\<close> of the language: it returns
  the compiled pattern or throws a \<open>SyntaxError\<close>.
\<close>

definition set_grep ::
  "(string \<Rightarrow> jsval + regexp) \<Rightarrow> configure_options \<Rightarrow> slim \<Rightarrow> jsval option \<times> slim" where
  "set_grep newRegExp options s =
     (case o_grep options of
        None \<Rightarrow> (None, s)
      | Some g \<Rightarrow>
          if grep_truthy g
          then (case g of
                  GrepRegExp r \<Rightarrow> (None, s\<lparr> runnerOptions := (runnerOptions s)\<lparr> grep := Some r \<rparr> \<rparr>)
                | GrepString str \<Rightarrow>
                    (case newRegExp str of
                       Inl e \<Rightarrow> (Some e, s)
                     | Inr r \<Rightarrow> (None, s\<lparr> runnerOptions := (runnerOptions s)\<lparr> grep := Some r \<rparr> \<rparr>)))
          else (None, s))"

definition configure ::
  "(string \<Rightarrow> jsval + regexp) \<Rightarrow> configure_options \<Rightarrow> slim \<Rightarrow> jsval option \<times> slim" where
  "configure newRegExp options s =
     (if groups s \<noteq> []
      then (Some (JError ''test.configure must be called before creating any tests''), s)
      else
        and_then
          (and_then
             (and_then
                (None, set_filter options (set_files options (set_timeout options
                         (set_bail options (set_reporterFn options s)))))
                (set_before options))
             (set_after options))
          (set_grep newRegExp options))"

text \<open>
  Modelled from the spec: the grep filter is applied by the runner's classes, which are
  not part of the sources at hand. When no pattern is configured it matches everything;
  otherwise \<open>matches\<close>, the pattern's \<open>test\<close> method, decides.
\<close>

definition grep_filter :: "(regexp \<Rightarrow> string \<Rightarrow> bool) \<Rightarrow> regexp option \<Rightarrow> string \<Rightarrow> bool" where
  "grep_filter matches g title = (case g of None \<Rightarrow> True | Some r \<Rightarrow> matches r title)"

subsection \<open>\<open>run\<close>\<close>

text \<open>
  What \<open>run\<close> does that can be observed from outside, in order, and how the call ends:
  the process exits with a code, the promise of \<open>run\<close> is fulfilled or rejected, or
  it stays pending behind a promise that never settles.
\<close>

datatype event =
    RunnerCreated
  | ReporterSet nat
  | HookCalled hook
  | LoadFilesCalled
  | ConsoleLog string
  | Required string
  | RunnerRun
  | ProcessExit nat

datatype run_outcome = Exited nat | Returned | Thrown jsval | Unsettled

datatype 'a promise = Fulfilled 'a | Rejected jsval | Forever

record run_result =
  outcome :: run_outcome
  trace :: "event list"
  final :: slim

text \<open>
  The collaborators of \<open>run\<close> outside the module: what \<open>loader.loadFiles()\<close> finds,
  the declarations a suite file makes when it is required, how the promise of
  \<open>runner.run()\<close> settles for the groups it is given, and the value of
  \<open>runner.hasErrors\<close> when \<open>run\<close> reads it.
\<close>

record run_env =
  loadFiles :: "Loader \<Rightarrow> string list promise"
  require :: "string \<Rightarrow> decl list"
  runner_run :: "Group list \<Rightarrow> unit promise"
  hasErrors :: bool

text \<open>The loop \<open>for (let hook of hooks) { await hook(runner, emitter) }\<close>.\<close>

fun run_hooks :: "hook list \<Rightarrow> slim \<Rightarrow> unit promise \<times> event list \<times> slim" where
  "run_hooks [] s = (Fulfilled (), [], s)"
| "run_hooks (Hook body st # hs) s =
     (case exec_all None body s of
        (Some e, s1) \<Rightarrow> (Rejected e, [HookCalled (Hook body st)], s1)
      | (None, s1) \<Rightarrow>
          (case st of
             Resolves \<Rightarrow>
               (case run_hooks hs s1 of
                  (p, tr, s2) \<Rightarrow> (p, HookCalled (Hook body st) # tr, s2))
           | Rejects v \<Rightarrow> (Rejected v, [HookCalled (Hook body st)], s1)
           | NeverSettles \<Rightarrow> (Forever, [HookCalled (Hook body st)], s1)))"

text \<open>\<open>loaderFiles.forEach((file) => require(file))\<close>.\<close>

fun require_all ::
  "(string \<Rightarrow> decl list) \<Rightarrow> string list \<Rightarrow> slim \<Rightarrow> jsval option \<times> event list \<times> slim" where
  "require_all req [] s = (None, [], s)"
| "require_all req (file # files) s =
     (case exec_all None (req file) s of
        (Some e, s1) \<Rightarrow> (Some e, [Required file], s1)
      | (None, s1) \<Rightarrow>
          (case require_all req files s1 of
             (r, tr, s2) \<Rightarrow> (r, Required file # tr, s2)))"

definition guard_message :: string where
  "guard_message =
     ''Calling configure inside test file is not allowed. Create a master file for same''"

text \<open>The end of \<open>run\<close>: the exit decision, or the reset of the module state.\<close>

definition run_finish :: "bool \<Rightarrow> bool \<Rightarrow> jsval \<Rightarrow> event list \<Rightarrow> slim \<Rightarrow> run_result" where
  "run_finish exitProcess runner_hasErrors hardException tr s =
     (if exitProcess
      then (if runner_hasErrors \<or> truthy hardException
            then \<lparr> outcome = Exited 1, trace = tr @ [ProcessExit 1], final = s \<rparr>
            else \<lparr> outcome = Exited 0, trace = tr @ [ProcessExit 0], final = s \<rparr>)
      else \<lparr> outcome = Returned, trace = tr, final = s\<lparr> groups := [], activeGroup := None \<rparr> \<rparr>)"

text \<open>
  From \<open>let hardException = null\<close> on: \<open>runner.run()\<close> inside \<open>try\<close>/\<open>catch\<close>,
  the after hooks, the end.
\<close>

definition run_tests :: "run_env \<Rightarrow> bool \<Rightarrow> event list \<Rightarrow> slim \<Rightarrow> run_result" where
  "run_tests env exitProcess tr s =
     (case runner_run env (groups s) of
        Forever \<Rightarrow> \<lparr> outcome = Unsettled, trace = tr @ [RunnerRun], final = s \<rparr>
      | settled \<Rightarrow>
          (let hardException = (case settled of Rejected error \<Rightarrow> error | _ \<Rightarrow> JNull)
           in case run_hooks (afterHooks s) s of
                (Rejected e, tr1, s1) \<Rightarrow>
                  \<lparr> outcome = Thrown e, trace = tr @ [RunnerRun] @ tr1, final = s1 \<rparr>
              | (Forever, tr1, s1) \<Rightarrow>
                  \<lparr> outcome = Unsettled, trace = tr @ [RunnerRun] @ tr1, final = s1 \<rparr>
              | (Fulfilled u, tr1, s1) \<Rightarrow>
                  run_finish exitProcess (hasErrors env) hardException (tr @ [RunnerRun] @ tr1) s1))"

text \<open>
  The first part of \<open>run\<close>, up to the loading of the suite files: either the call
  ends there, or it goes on to \<open>runner.run()\<close> with the events so far and the state
  the declarations have built.
\<close>

definition run_load :: "run_env \<Rightarrow> slim \<Rightarrow> run_result + event list \<times> slim" where
  "run_load env s =
     (let tr0 = [RunnerCreated, ReporterSet (reporterFn s)]
      in case run_hooks (beforeHooks s) s of
           (Rejected e, tr1, s1) \<Rightarrow>
             Inl \<lparr> outcome = Thrown e, trace = tr0 @ tr1, final = s1 \<rparr>
         | (Forever, tr1, s1) \<Rightarrow>
             Inl \<lparr> outcome = Unsettled, trace = tr0 @ tr1, final = s1 \<rparr>
         | (Fulfilled u, tr1, s1) \<Rightarrow>
             (case loadFiles env (loader s1) of
                Rejected e \<Rightarrow>
                  Inl \<lparr> outcome = Thrown e, trace = tr0 @ tr1 @ [LoadFilesCalled], final = s1 \<rparr>
              | Forever \<Rightarrow>
                  Inl \<lparr> outcome = Unsettled, trace = tr0 @ tr1 @ [LoadFilesCalled], final = s1 \<rparr>
              | Fulfilled loaderFiles \<Rightarrow>
                  if loaderFiles \<noteq> [] \<and> groups s1 \<noteq> []
                  then Inl \<lparr> outcome = Exited 1,
                             trace = tr0 @ tr1 @
                               [LoadFilesCalled, ConsoleLog guard_message, ProcessExit 1],
                             final = s1 \<rparr>
                  else
                    (case require_all (require env) loaderFiles s1 of
                       (Some e, tr2, s2) \<Rightarrow>
                         Inl \<lparr> outcome = Thrown e,
                               trace = tr0 @ tr1 @ [LoadFilesCalled] @ tr2, final = s2 \<rparr>
                     | (None, tr2, s2) \<Rightarrow>
                         Inr (tr0 @ tr1 @ [LoadFilesCalled] @ tr2, s2))))"

text \<open>\<open>run(exitProcess = true)\<close>.\<close>

definition run :: "run_env \<Rightarrow> bool \<Rightarrow> slim \<Rightarrow> run_result" where
  "run env exitProcess s =
     (case run_load env s of
        Inl stopped \<Rightarrow> stopped
      | Inr (tr, s2) \<Rightarrow> run_tests env exitProcess tr s2)"

section \<open>Notions used to state the properties\<close>

subsection \<open>Declarations and what they attach\<close>

text \<open>The call of \<open>addTest\<close> a test declaration makes.\<close>

fun test_call :: "decl \<Rightarrow> (string \<times> nat \<times> test_option option) option" where
  "test_call (DTest title cb) = Some (title, cb, None)"
| "test_call (DSkip title cb) = Some (title, cb, Some Skip)"
| "test_call (DSkipInCI title cb) = Some (title, cb, Some SkipInCI)"
| "test_call (DRunInCI title cb) = Some (title, cb, Some RunInCI)"
| "test_call (DFailing title cb) = Some (title, cb, Some Regression)"
| "test_call (DGroup title body) = None"
| "test_call (DHook k cb) = None"
| "test_call (DThrow v) = None"

text \<open>The tests a script declares, in order, with the timeout of the group they join.\<close>

definition declared_tests :: "int \<Rightarrow> decl list \<Rightarrow> Test list" where
  "declared_tests tmo ds =
     map (\<lambda>(title, cb, opt). new_Test title cb opt tmo) (List.map_filter test_call ds)"

text \<open>
  What one declaration adds to a group it is attached to, and the declarations of a
  callback that neither opens a nested group nor throws.
\<close>

fun attach :: "Group \<Rightarrow> decl \<Rightarrow> Group" where
  "attach g (DHook k cb) = Group_hook k cb g"
| "attach g d =
     (case test_call d of
        Some (title, cb, opt) \<Rightarrow> Group_test title cb opt g
      | None \<Rightarrow> g)"

fun plain :: "decl \<Rightarrow> bool" where
  "plain (DGroup title body) = False"
| "plain (DThrow v) = False"
| "plain d = True"

text \<open>The configuration a group holds, and the same three values of the options.\<close>

definition snapshot :: "Group \<Rightarrow> bool \<times> int \<times> regexp option" where
  "snapshot g = (g_bail g, g_timeout g, g_grep g)"

definition config_of :: "IOptions \<Rightarrow> bool \<times> int \<times> regexp option" where
  "config_of options = (bail options, timeout options, grep options)"

text \<open>
  \<open>extends s s'\<close>: every group of \<open>s\<close> is still in its place in \<open>s'\<close>, with its
  title and its configuration.
\<close>

definition extends :: "slim \<Rightarrow> slim \<Rightarrow> bool" where
  "extends s s' =
     (length (groups s) \<le> length (groups s') \<and>
      (\<forall>i<length (groups s).
         snapshot (groups s' ! i) = snapshot (groups s ! i) \<and>
         g_title (groups s' ! i) = g_title (groups s ! i)))"

subsection \<open>What \<open>test.configure\<close> accepts\<close>

text \<open>
  A \<open>before\<close> or \<open>after\<close> option passes when it is absent, falsy or an array; a
  \<open>grep\<close> option compiles when it is absent, a pattern, the empty string or a string
  that \<open>new RegExp\<close> accepts.
\<close>

definition passes_ow :: "hooks_arg option \<Rightarrow> bool" where
  "passes_ow a = (case a of Some (NotArray v) \<Rightarrow> \<not> truthy v | _ \<Rightarrow> True)"

definition grep_compiles :: "(string \<Rightarrow> jsval + regexp) \<Rightarrow> grep_arg option \<Rightarrow> bool" where
  "grep_compiles newRegExp g =
     (case g of
        Some (GrepString str) \<Rightarrow>
          (if str = [] then True
           else (case newRegExp str of Inl e \<Rightarrow> False | Inr r \<Rightarrow> True))
      | _ \<Rightarrow> True)"

subsection \<open>Concrete inputs\<close>

text \<open>A constructor that accepts every string, for the examples.\<close>

definition compile_any :: "string \<Rightarrow> jsval + regexp" where
  "compile_any str = Inr (RegExp str [])"

text \<open>
  Collaborators of \<open>run\<close>: no suite file and a runner that passes; one suite file
  found; a runner whose \<open>run\<close> rejects.
\<close>

definition quiet_env :: run_env where
  "quiet_env =
     \<lparr> loadFiles = (\<lambda>l. Fulfilled []), require = (\<lambda>file. []),
       runner_run = (\<lambda>gs. Fulfilled ()), hasErrors = False \<rparr>"

definition found_env :: run_env where
  "found_env = quiet_env\<lparr> loadFiles := (\<lambda>l. Fulfilled [''math.spec.js'']) \<rparr>"

definition boom_env :: run_env where
  "boom_env = quiet_env\<lparr> runner_run := (\<lambda>gs. Rejected (JError ''boom'')) \<rparr>"

definition teardown_hooks :: "hook list" where
  "teardown_hooks = [Hook [] (Rejects (JStr ''teardown failed'')), Hook [] Resolves]"

text \<open>Events and clock readings for the reporter.\<close>

definition pending_event :: "int test_end" where
  "pending_event =
     \<lparr> ev_error = None, ev_status = ''pending'', ev_title = ''adds two numbers'',
       ev_duration = 3, ev_regression = False, ev_regressionMessage = [] \<rparr>"

definition passed_event :: "int test_end" where
  "passed_event =
     \<lparr> ev_error = None, ev_status = ''passed'', ev_title = ''adds two numbers'',
       ev_duration = 1500, ev_regression = False, ev_regressionMessage = [] \<rparr>"

definition morning :: jsdate where
  "morning = \<lparr> d_year = 2019, d_month = 3, d_date = 14, d_millis = 32400000 \<rparr>"

definition evening :: jsdate where
  "evening = \<lparr> d_year = 2019, d_month = 3, d_date = 14, d_millis = 75600000 \<rparr>"

section \<open>Properties of the reporter\<close>

lemma log_fields [simp]:
  "finalStats (log l r) = finalStats r"
  "start (log l r) = start r"
  "console (log l r) = console r @ [l]"
  by (simp_all add: log_def)

lemma blankLine_fields [simp]:
  "finalStats (blankLine r) = finalStats r"
  "start (blankLine r) = start r"
  "console (blankLine r) = console r @ [Blank]"
  by (simp_all add: blankLine_def)

lemma printError_finalStats [simp]: "finalStats (printError f i r) = finalStats r"
  by (simp add: printError_def Let_def)

lemma printErrors_finalStats [simp]: "finalStats (printErrors fs i r) = finalStats r"
  by (induction fs arbitrary: i r) simp_all

lemma printStack_finalStats [simp]: "finalStats (printStack error r) = finalStats r"
  by (simp add: printStack_def split: end_error.splits)

text \<open>Only the \<open>start\<close> handler writes \<open>this.start\<close>.\<close>

lemma on_event_start: "start (on_event e r) = start r"
  by (cases e) (simp_all add: onTestEnd_def onGroupStart_def onGroupEnd_def Let_def)

lemma on_events_start: "start (on_events es r) = start r"
  by (induction es arbitrary: r) (simp_all add: on_event_start)

lemma onTestsEnd_report:
  "total (finalStats r) \<noteq> 0 \<Longrightarrow>
   last (console (onTestsEnd now status error r)) =
     Report (shown_stats (finalStats r))
       (getDate now - (case start r of None \<Rightarrow> 0 | Some d \<Rightarrow> d))"
  by (simp add: onTestsEnd_def generateReport_def Let_def)

text \<open>
  Claim C9. For a \<open>test:end\<close> event whose status is none of passed, failed, skipped
  and todo, \<open>onTestEnd\<close> returns at once: the reporter and the module counters are
  left as they were, so no counter of the final stats changes, nothing is printed and no
  test case is appended to the current suite (\<open>this.testSuite\<close> refers to the same
  array, and no array has changed).
\<close>

theorem onTestEnd_unknown_status:
  "ev_status ev \<notin> set testsStatuses \<Longrightarrow>
   onTestEnd ev r = r \<and>
   finalStats (onTestEnd ev r) = finalStats r \<and>
   console (onTestEnd ev r) = console r \<and>
   testSuite (onTestEnd ev r) = testSuite r \<and>
   arrays (onTestEnd ev r) = arrays r"
  by (simp add: onTestEnd_def)

theorem onTestEnd_unknown_status_witness:
  "ev_status pending_event \<notin> set testsStatuses \<and>
   onTestEnd pending_event new_Min = new_Min \<and>
   console (onTestEnd pending_event new_Min) = []"
  using onTestEnd_unknown_status [of pending_event new_Min]
  by (simp add: pending_event_def testsStatuses_def new_Min_def)

text \<open>
  Claim C10. The time of the final summary is the day of the month read at the
  \<open>end\<close> event minus the day of the month read at the \<open>start\<close> event, whatever
  happens in between; so when a run that prints a summary starts and ends on the same
  calendar day, the summary shows the rendering of 0 milliseconds.
\<close>

theorem total_time_is_day_difference:
  "total (finalStats (on_events es (onTestsStart t0 r))) \<noteq> 0 \<Longrightarrow>
   last (console (onTestsEnd t1 status error (on_events es (onTestsStart t0 r)))) =
     Report (shown_stats (finalStats (on_events es (onTestsStart t0 r))))
       (getDate t1 - getDate t0) \<and>
   (same_calendar_day t0 t1 \<longrightarrow>
    last (console (onTestsEnd t1 status error (on_events es (onTestsStart t0 r)))) =
      Report (shown_stats (finalStats (on_events es (onTestsStart t0 r)))) 0)"
proof -
  let ?r1 = "on_events es (onTestsStart t0 r)"
  assume ran: "total (finalStats ?r1) \<noteq> 0"
  have "start ?r1 = Some (getDate t0)"
    by (simp add: on_events_start onTestsStart_def)
  with onTestsEnd_report [OF ran, of t1 status error]
  have shown: "last (console (onTestsEnd t1 status error ?r1)) =
      Report (shown_stats (finalStats ?r1)) (getDate t1 - getDate t0)"
    by simp
  have "getDate t1 - getDate t0 = 0" if "same_calendar_day t0 t1"
    using that by (simp add: same_calendar_day_def getDate_def)
  with shown show ?thesis
    by simp
qed

theorem total_time_is_day_difference_witness:
  "total (finalStats (on_events [TestEnd passed_event] (onTestsStart morning new_Min))) \<noteq> 0 \<and>
   same_calendar_day morning evening \<and>
   last (console (onTestsEnd evening ''passed'' NoErrors
           (on_events [TestEnd passed_event] (onTestsStart morning new_Min)))) =
     Report [(''total'', 1), (''passed'', 1)] 0"
proof -
  let ?r1 = "on_events [TestEnd passed_event] (onTestsStart morning new_Min)"
  have stats: "finalStats ?r1 =
      \<lparr> total = 1, passed = 1, failed = 0, skipped = 0, regression = 0, todo = 0 \<rparr>"
    by (simp add: passed_event_def onTestsStart_def new_Min_def onTestEnd_def
        testsStatuses_def bump_status_def Let_def)
  have ran: "total (finalStats ?r1) \<noteq> 0"
    unfolding stats by simp
  have day: "same_calendar_day morning evening"
    by (simp add: same_calendar_day_def morning_def evening_def)
  have shown: "shown_stats (finalStats ?r1) = [(''total'', 1), (''passed'', 1)]"
    unfolding stats by (simp add: shown_stats_def statsKeys_def)
  from total_time_is_day_difference [OF ran, of evening "''passed''" NoErrors] day
  have "last (console (onTestsEnd evening ''passed'' NoErrors ?r1)) =
      Report (shown_stats (finalStats ?r1)) 0"
    by blast
  with ran day shown show ?thesis
    by (simp only: simp_thms)
qed

section \<open>Properties of the declarations\<close>

lemma addTest_no_active:
  "activeGroup s = None \<Longrightarrow>
   addTest title cb opt s =
     s\<lparr> activeGroup := Some (length (groups s)),
        groups := groups s @ [Group_test title cb opt (new_Group ''root'' (runnerOptions s))] \<rparr>"
  by (simp add: addTest_def)

lemma addTest_active:
  "activeGroup s = Some i \<Longrightarrow>
   addTest title cb opt s =
     s\<lparr> groups := (groups s)[i := Group_test title cb opt (groups s ! i)] \<rparr>"
  by (simp add: addTest_def)

lemma exec_test_call:
  "test_call d = Some (title, cb, opt) \<Longrightarrow> exec cur d s = (None, addTest title cb opt s)"
  by (cases d) (auto simp: test_def skip_def skipInCI_def runInCI_def failing_def)

lemma attach_test_call:
  "test_call d = Some (title, cb, opt) \<Longrightarrow> attach g d = Group_test title cb opt g"
  by (cases d) simp_all

lemma test_call_plain: "test_call d \<noteq> None \<Longrightarrow> plain d"
  by (cases d) simp_all

lemma Group_test_fields [simp]:
  "g_title (Group_test title cb opt g) = g_title g"
  "g_timeout (Group_test title cb opt g) = g_timeout g"
  "g_tests (Group_test title cb opt g) = g_tests g @ [new_Test title cb opt (g_timeout g)]"
  "snapshot (Group_test title cb opt g) = snapshot g"
  by (simp_all add: Group_test_def snapshot_def)

lemma Group_hook_fields [simp]:
  "g_title (Group_hook k cb g) = g_title g"
  "g_timeout (Group_hook k cb g) = g_timeout g"
  "g_tests (Group_hook k cb g) = g_tests g"
  "snapshot (Group_hook k cb g) = snapshot g"
  by (cases k; simp add: snapshot_def)+

lemma attach_timeout [simp]: "g_timeout (attach g d) = g_timeout g"
  by (cases d) (simp_all split: option.splits)

subsection \<open>Callbacks without nested groups\<close>

lemma exec_plain:
  "plain d \<Longrightarrow> activeGroup s = Some i \<Longrightarrow>
   exec (Some i) d s = (None, s\<lparr> groups := (groups s)[i := attach (groups s ! i) d] \<rparr>)"
  by (cases d)
     (simp_all add: test_def skip_def skipInCI_def runInCI_def failing_def addTest_active)

lemma exec_all_plain:
  "\<forall>d\<in>set ds. plain d \<Longrightarrow> activeGroup s = Some i \<Longrightarrow> i < length (groups s) \<Longrightarrow>
   exec_all (Some i) ds s =
     (None, s\<lparr> groups := (groups s)[i := foldl attach (groups s ! i) ds] \<rparr>)"
proof (induction ds arbitrary: s)
  case Nil
  then show ?case by simp
next
  case (Cons d ds)
  let ?s1 = "s\<lparr> groups := (groups s)[i := attach (groups s ! i) d] \<rparr>"
  have step: "exec (Some i) d s = (None, ?s1)"
    using Cons.prems by (simp add: exec_plain)
  have "exec_all (Some i) ds ?s1 =
      (None, ?s1\<lparr> groups := (groups ?s1)[i := foldl attach (groups ?s1 ! i) ds] \<rparr>)"
    using Cons.prems by (intro Cons.IH) simp_all
  with step Cons.prems(3) show ?case by simp
qed

lemma exec_all_tests:
  "\<forall>d\<in>set ds. test_call d \<noteq> None \<Longrightarrow> activeGroup s = Some i \<Longrightarrow>
   i < length (groups s) \<Longrightarrow>
   exec_all cur ds s =
     (None, s\<lparr> groups := (groups s)[i := foldl attach (groups s ! i) ds] \<rparr>)"
proof (induction ds arbitrary: s)
  case Nil
  then show ?case by simp
next
  case (Cons d ds)
  from Cons.prems obtain title cb opt where d: "test_call d = Some (title, cb, opt)"
    by (cases "test_call d") auto
  let ?s1 = "s\<lparr> groups := (groups s)[i := attach (groups s ! i) d] \<rparr>"
  have step: "exec cur d s = (None, ?s1)"
    using Cons.prems d by (simp add: exec_test_call addTest_active attach_test_call)
  have "exec_all cur ds ?s1 =
      (None, ?s1\<lparr> groups := (groups ?s1)[i := foldl attach (groups ?s1 ! i) ds] \<rparr>)"
    using Cons.prems by (intro Cons.IH) simp_all
  with step Cons.prems(3) show ?case by simp
qed

lemma foldl_attach_tests:
  "\<forall>d\<in>set ds. test_call d \<noteq> None \<Longrightarrow>
   foldl attach g ds = g\<lparr> g_tests := g_tests g @ declared_tests (g_timeout g) ds \<rparr>"
proof (induction ds arbitrary: g)
  case Nil
  then show ?case by (simp add: declared_tests_def List.map_filter_simps)
next
  case (Cons d ds)
  from Cons.prems obtain title cb opt where d: "test_call d = Some (title, cb, opt)"
    by (cases "test_call d") auto
  then have a: "attach g d = Group_test title cb opt g"
    by (rule attach_test_call)
  have "foldl attach (attach g d) ds =
      (attach g d)\<lparr> g_tests := g_tests (attach g d) @
         declared_tests (g_timeout (attach g d)) ds \<rparr>"
    using Cons.prems by (intro Cons.IH) simp
  then show ?case
    using d by (simp add: a declared_tests_def List.map_filter_simps Group_test_def)
qed

subsection \<open>Any script keeps the groups that exist\<close>

lemma extends_refl [simp]: "extends s s"
  by (simp add: extends_def)

lemma extends_trans: "extends s s1 \<Longrightarrow> extends s1 s2 \<Longrightarrow> extends s s2"
  by (auto simp: extends_def)

lemma extends_activeGroup [simp]: "extends s (s'\<lparr> activeGroup := a \<rparr>) = extends s s'"
  by (simp add: extends_def)

lemma nth_update_same:
  "j < length xs \<Longrightarrow> (\<And>x. f (h x) = f x) \<Longrightarrow> f (xs[i := h (xs ! i)] ! j) = f (xs ! j)"
  by (cases "i = j") simp_all

lemma extends_addTest: "extends s (addTest title cb opt s)"
  by (cases "activeGroup s")
     (auto simp: addTest_no_active addTest_active extends_def nth_append nth_update_same)

lemma extends_hook:
  "extends s (s\<lparr> groups := (groups s)[i := Group_hook k cb (groups s ! i)] \<rparr>)"
  by (auto simp: extends_def nth_update_same)

lemma extends_push:
  "extends s (s\<lparr> activeGroup := a, groups := groups s @ [g] \<rparr>)"
  by (auto simp: extends_def nth_append)

lemma exec_extends:
  "extends s (snd (exec cur d s))"
  "extends s (snd (exec_all cur ds s))"
proof (induction cur d s and cur ds s rule: exec_exec_all.induct)
  case (6 cur title body s)
  let ?n = "length (groups s)"
  let ?s1 = "s\<lparr> activeGroup := Some ?n,
                 groups := groups s @ [new_Group title (runnerOptions s)] \<rparr>"
  have pushed: "extends s ?s1" by (rule extends_push)
  have inside: "extends ?s1 (snd (exec_all (Some ?n) body ?s1))" by (rule 6)
  from extends_trans [OF pushed inside] show ?case
    by (auto simp: group_def Let_def split: prod.splits option.splits)
next
  case (7 cur k cb s)
  then show ?case by (auto simp: extends_hook split: option.splits)
next
  case (10 cur d ds s)
  show ?case
  proof (cases "exec cur d s")
    case (Pair r s1)
    show ?thesis
    proof (cases r)
      case None
      with Pair 10 have "extends s s1" "extends s1 (snd (exec_all cur ds s1))" by auto
      then show ?thesis using Pair None by (auto intro: extends_trans)
    next
      case (Some e)
      with Pair 10 show ?thesis by auto
    qed
  qed
qed (simp_all add: test_def skip_def skipInCI_def runInCI_def failing_def extends_addTest)

text \<open>The group a \<open>test.group\<close> call pushes stays where it was pushed.\<close>

lemma group_pushed:
  "extends (s\<lparr> activeGroup := Some (length (groups s)),
                groups := groups s @ [new_Group title (runnerOptions s)] \<rparr>)
     (snd (exec cur (DGroup title body) s))"
proof -
  let ?n = "length (groups s)"
  let ?s1 = "s\<lparr> activeGroup := Some ?n,
                 groups := groups s @ [new_Group title (runnerOptions s)] \<rparr>"
  have "extends ?s1 (snd (exec_all (Some ?n) body ?s1))" by (rule exec_extends)
  then show ?thesis
    by (auto simp: group_def Let_def split: prod.splits option.splits)
qed

section \<open>Claims about the declarations\<close>

text \<open>
  Claim C4, as the code has it. Tests declared while no group is active are collected
  into an implicit group titled \<open>root\<close>: a sequence of test declarations with no
  \<open>test.group\<close> call in between, started while no group is active, pushes exactly one
  new group, titled \<open>root\<close>, and that group holds every one of those tests in the
  order of declaration.
\<close>

theorem root_group_collects_tests:
  "activeGroup s = None \<Longrightarrow> ds \<noteq> [] \<Longrightarrow> \<forall>d\<in>set ds. test_call d \<noteq> None \<Longrightarrow>
   exec_all cur ds s =
     (None, s\<lparr> activeGroup := Some (length (groups s)),
               groups := groups s @
                 [(new_Group ''root'' (runnerOptions s))
                    \<lparr> g_tests := declared_tests (timeout (runnerOptions s)) ds \<rparr>] \<rparr>)"
proof -
  assume idle: "activeGroup s = None" and some: "ds \<noteq> []"
    and tests: "\<forall>d\<in>set ds. test_call d \<noteq> None"
  from some obtain d rest where ds: "ds = d # rest" by (cases ds) auto
  from tests ds obtain title cb opt where d: "test_call d = Some (title, cb, opt)"
    by (cases "test_call d") auto
  let ?n = "length (groups s)"
  let ?root = "new_Group ''root'' (runnerOptions s)"
  let ?s1 = "s\<lparr> activeGroup := Some ?n, groups := groups s @ [attach ?root d] \<rparr>"
  have first: "exec cur d s = (None, ?s1)"
    using idle d by (simp add: exec_test_call addTest_no_active attach_test_call)
  have "exec_all cur rest ?s1 =
      (None, ?s1\<lparr> groups := (groups ?s1)[?n := foldl attach (groups ?s1 ! ?n) rest] \<rparr>)"
    using tests ds by (intro exec_all_tests) simp_all
  with first have "exec_all cur ds s =
      (None, s\<lparr> activeGroup := Some ?n, groups := groups s @ [foldl attach ?root ds] \<rparr>)"
    by (simp add: ds)
  moreover have "foldl attach ?root ds =
      ?root\<lparr> g_tests := declared_tests (timeout (runnerOptions s)) ds \<rparr>"
    using foldl_attach_tests [OF tests, of ?root] by (simp add: new_Group_def)
  ultimately show ?thesis by simp
qed

theorem root_group_collects_tests_witness:
  "activeGroup initial = None \<and>
   map g_title (groups (snd (exec_all None [DTest ''adds'' 1, DSkip ''subtracts'' 2] initial))) = [''root''] \<and>
   map t_title (g_tests (hd (groups (snd (exec_all None [DTest ''adds'' 1, DSkip ''subtracts'' 2] initial))))) =
     [''adds'', ''subtracts'']"
proof -
  have idle: "activeGroup initial = None" by (simp add: initial_def)
  have some: "[DTest ''adds'' 1, DSkip ''subtracts'' 2] \<noteq> []" by simp
  have tests: "\<forall>d\<in>set [DTest ''adds'' 1, DSkip ''subtracts'' 2]. test_call d \<noteq> None" by simp
  show ?thesis
    using root_group_collects_tests [OF idle some tests, of None]
    by (simp add: initial_def new_Group_def declared_tests_def List.map_filter_simps new_Test_def)
qed

text \<open>
  The claim as stated asks for at most one group titled \<open>root\<close>. A top-level test
  declared after a \<open>test.group\<close> call starts a second one, since the call leaves no
  group active.
\<close>

theorem single_root_group_counterexample:
  "map g_title (groups (snd (exec_all None
       [DTest ''adds'' 1, DGroup ''math'' [], DTest ''subtracts'' 2] initial))) =
     [''root'', ''math'', ''root''] \<and>
   length (filter (\<lambda>g. g_title g = ''root'') (groups (snd (exec_all None
       [DTest ''adds'' 1, DGroup ''math'' [], DTest ''subtracts'' 2] initial)))) = 2"
  by (simp add: initial_def test_def addTest_def group_def new_Group_def Group_test_def)

text \<open>
  Claim C7, as the code has it. A call of \<open>test.group\<close> pushes a new group with the
  given title, whatever the callback declares; when the callback returns no group is
  active; and every test and hook declared by a callback that opens no nested group is
  attached to the new group, in order, before \<open>test.group\<close> returns.
\<close>

theorem group_attaches_declarations:
  "length (groups s) < length (groups (snd (exec cur (DGroup title body) s))) \<and>
   g_title (groups (snd (exec cur (DGroup title body) s)) ! length (groups s)) = title \<and>
   (fst (group title callback s) = None \<longrightarrow>
      activeGroup (snd (group title callback s)) = None) \<and>
   ((\<forall>d\<in>set body. plain d) \<longrightarrow>
      exec cur (DGroup title body) s =
        (None, s\<lparr> activeGroup := None,
                  groups := groups s @
                    [foldl attach (new_Group title (runnerOptions s)) body] \<rparr>))"
proof -
  let ?n = "length (groups s)"
  let ?s1 = "s\<lparr> activeGroup := Some ?n,
                 groups := groups s @ [new_Group title (runnerOptions s)] \<rparr>"
  have kept: "extends ?s1 (snd (exec cur (DGroup title body) s))"
    by (rule group_pushed)
  then have "?n < length (groups (snd (exec cur (DGroup title body) s)))"
    by (simp add: extends_def)
  moreover from kept have
    "g_title (groups (snd (exec cur (DGroup title body) s)) ! ?n) = g_title (groups ?s1 ! ?n)"
    by (simp add: extends_def)
  then have "g_title (groups (snd (exec cur (DGroup title body) s)) ! ?n) = title"
    by (simp add: new_Group_def)
  moreover have "activeGroup (snd (group title callback s)) = None"
    if "fst (group title callback s) = None"
    using that by (auto simp: group_def Let_def split: prod.splits option.splits)
  moreover have "exec cur (DGroup title body) s =
        (None, s\<lparr> activeGroup := None,
                  groups := groups s @
                    [foldl attach (new_Group title (runnerOptions s)) body] \<rparr>)"
    if "\<forall>d\<in>set body. plain d"
  proof -
    have "exec_all (Some ?n) body ?s1 =
        (None, ?s1\<lparr> groups := (groups ?s1)[?n := foldl attach (groups ?s1 ! ?n) body] \<rparr>)"
      using that by (intro exec_all_plain) simp_all
    then show ?thesis
      by (simp add: group_def Let_def)
  qed
  ultimately show ?thesis by blast
qed

theorem group_attaches_declarations_witness:
  "exec None (DGroup ''math'' [DHook Before 7, DTest ''adds'' 1]) initial =
     (None, initial\<lparr> groups :=
        [\<lparr> g_title = ''math'',
           g_tests = [new_Test ''adds'' 1 None 2000],
           g_before = Some 7, g_after = None, g_beforeEach = None, g_afterEach = None,
           g_bail = False, g_timeout = 2000, g_grep = None \<rparr>] \<rparr>)"
proof -
  have "\<forall>d\<in>set [DHook Before 7, DTest ''adds'' 1]. plain d" by simp
  with group_attaches_declarations [of initial None "''math''" "[DHook Before 7, DTest ''adds'' 1]"]
  have "exec None (DGroup ''math'' [DHook Before 7, DTest ''adds'' 1]) initial =
        (None, initial\<lparr> activeGroup := None,
                  groups := groups initial @
                    [foldl attach (new_Group ''math'' (runnerOptions initial))
                       [DHook Before 7, DTest ''adds'' 1]] \<rparr>)"
    by blast
  then show ?thesis
    by (simp add: initial_def new_Group_def Group_test_def)
qed

text \<open>
  The claim as stated covers every callback. A test declared in the callback after a
  nested \<open>test.group\<close> call is attached to a new group titled \<open>root\<close>, not to the
  group of the callback: the nested call has left no group active.
\<close>

theorem nested_group_counterexample:
  "map g_title (groups (snd (exec None
      (DGroup ''outer'' [DGroup ''inner'' [], DTest ''adds'' 1]) initial))) =
     [''outer'', ''inner'', ''root''] \<and>
   g_tests (groups (snd (exec None
      (DGroup ''outer'' [DGroup ''inner'' [], DTest ''adds'' 1]) initial)) ! 0) = [] \<and>
   map t_title (g_tests (groups (snd (exec None
      (DGroup ''outer'' [DGroup ''inner'' [], DTest ''adds'' 1]) initial)) ! 2)) = [''adds'']"
  by (simp add: initial_def test_def addTest_def group_def new_Group_def Group_test_def new_Test_def)

section \<open>Properties of \<open>test.configure\<close>\<close>

lemma and_then_simps [simp]:
  "and_then (None, s) f = f s"
  "and_then (Some e, s) f = (Some e, s)"
  by (simp_all add: and_then_def)

lemma and_then_result:
  "fst (and_then r f) = None \<longleftrightarrow> fst r = None \<and> fst (f (snd r)) = None"
  by (cases r) (auto simp: and_then_def split: option.splits)

lemma and_then_groups:
  "(\<And>s. groups (snd (f s)) = groups s) \<Longrightarrow> groups (snd (and_then r f)) = groups (snd r)"
  by (cases r) (auto simp: and_then_def split: option.splits)

lemma setters_groups [simp]:
  "groups (set_reporterFn options s) = groups s"
  "groups (set_bail options s) = groups s"
  "groups (set_timeout options s) = groups s"
  "groups (set_files options s) = groups s"
  "groups (set_filter options s) = groups s"
  by (simp_all add: set_reporterFn_def set_bail_def set_timeout_def set_files_def
      set_filter_def split: option.splits)

lemma setters_grep [simp]:
  "grep (runnerOptions (set_reporterFn options s)) = grep (runnerOptions s)"
  "grep (runnerOptions (set_bail options s)) = grep (runnerOptions s)"
  "grep (runnerOptions (set_timeout options s)) = grep (runnerOptions s)"
  "grep (runnerOptions (set_files options s)) = grep (runnerOptions s)"
  "grep (runnerOptions (set_filter options s)) = grep (runnerOptions s)"
  by (simp_all add: set_reporterFn_def set_bail_def set_timeout_def set_files_def
      set_filter_def split: option.splits)

lemma set_before_groups [simp]: "groups (snd (set_before options s)) = groups s"
  by (simp add: set_before_def split: option.splits hooks_arg.splits)

lemma set_after_groups [simp]: "groups (snd (set_after options s)) = groups s"
  by (simp add: set_after_def split: option.splits hooks_arg.splits)

lemma set_grep_groups [simp]: "groups (snd (set_grep newRegExp options s)) = groups s"
  by (simp add: set_grep_def split: option.splits grep_arg.splits sum.splits)

lemma set_before_grep [simp]:
  "grep (runnerOptions (snd (set_before options s))) = grep (runnerOptions s)"
  by (simp add: set_before_def split: option.splits hooks_arg.splits)

lemma set_after_grep [simp]:
  "grep (runnerOptions (snd (set_after options s))) = grep (runnerOptions s)"
  by (simp add: set_after_def split: option.splits hooks_arg.splits)

text \<open>No call of \<open>test.configure\<close> touches the groups.\<close>

lemma configure_groups: "groups (snd (configure newRegExp options s)) = groups s"
  by (simp add: configure_def and_then_groups)

lemma set_before_result:
  "fst (set_before options s) = None \<longleftrightarrow> passes_ow (o_before options)"
  by (cases "o_before options"; simp add: set_before_def passes_ow_def split: hooks_arg.splits)

lemma set_after_result:
  "fst (set_after options s) = None \<longleftrightarrow> passes_ow (o_after options)"
  by (cases "o_after options"; simp add: set_after_def passes_ow_def split: hooks_arg.splits)

lemma set_grep_result:
  "fst (set_grep newRegExp options s) = None \<longleftrightarrow> grep_compiles newRegExp (o_grep options)"
  by (cases "o_grep options";
      simp add: set_grep_def grep_compiles_def split: grep_arg.splits sum.splits)

text \<open>With no group and hooks that pass the array check, a call is its last step.\<close>

lemma configure_is_set_grep:
  assumes "groups s = []" "passes_ow (o_before options)" "passes_ow (o_after options)"
  shows "\<exists>s1. grep (runnerOptions s1) = grep (runnerOptions s) \<and>
           configure newRegExp options s = set_grep newRegExp options s1"
proof -
  let ?s5 = "set_filter options (set_files options (set_timeout options
               (set_bail options (set_reporterFn options s))))"
  obtain sb where b: "set_before options ?s5 = (None, sb)"
    using assms(2) set_before_result [of options ?s5] by (cases "set_before options ?s5") auto
  obtain sa where a: "set_after options sb = (None, sa)"
    using assms(3) set_after_result [of options sb] by (cases "set_after options sb") auto
  have "grep (runnerOptions sb) = grep (runnerOptions ?s5)"
    using set_before_grep [of options ?s5] b by simp
  moreover have "grep (runnerOptions sa) = grep (runnerOptions sb)"
    using set_after_grep [of options sb] a by simp
  moreover have "configure newRegExp options s = set_grep newRegExp options sa"
    using assms(1) a b by (simp add: configure_def)
  ultimately show ?thesis by auto
qed

lemma set_grep_cases:
  "(o_grep options = None \<longrightarrow> set_grep newRegExp options s = (None, s)) \<and>
   (o_grep options = Some (GrepString []) \<longrightarrow> set_grep newRegExp options s = (None, s)) \<and>
   (o_grep options = Some (GrepRegExp re) \<longrightarrow>
      fst (set_grep newRegExp options s) = None \<and>
      grep (runnerOptions (snd (set_grep newRegExp options s))) = Some re) \<and>
   (o_grep options = Some (GrepString str) \<and> str \<noteq> [] \<and> newRegExp str = Inr re \<longrightarrow>
      fst (set_grep newRegExp options s) = None \<and>
      grep (runnerOptions (snd (set_grep newRegExp options s))) = Some re)"
  by (simp add: set_grep_def)

section \<open>Properties of \<open>run\<close>\<close>

text \<open>The hook loop calls the hooks in order and stops at the first that does not resolve.\<close>

lemma run_hooks_trace:
  "run_hooks hs s = (p, tr, s') \<Longrightarrow> tr = map HookCalled (take (length tr) hs)"
proof (induction hs arbitrary: s p tr s')
  case Nil
  then show ?case by simp
next
  case (Cons h hs)
  obtain body st where h: "h = Hook body st" by (cases h)
  show ?case
  proof (cases "exec_all None body s")
    case (Pair r s1)
    show ?thesis
    proof (cases r)
      case (Some e)
      with Cons.prems h Pair show ?thesis by auto
    next
      case None
      show ?thesis
      proof (cases st)
        case Resolves
        obtain p2 tr2 s2 where rest: "run_hooks hs s1 = (p2, tr2, s2)"
          by (cases "run_hooks hs s1")
        from Cons.IH [OF rest] have "tr2 = map HookCalled (take (length tr2) hs)" .
        with Cons.prems h Pair None Resolves rest show ?thesis by auto
      next
        case (Rejects v)
        with Cons.prems h Pair None show ?thesis by auto
      next
        case NeverSettles
        with Cons.prems h Pair None show ?thesis by auto
      qed
    qed
  qed
qed

lemma run_hooks_fulfilled:
  "run_hooks hs s = (Fulfilled u, tr, s') \<Longrightarrow> tr = map HookCalled hs"
proof (induction hs arbitrary: s tr s')
  case Nil
  then show ?case by simp
next
  case (Cons h hs)
  obtain body st where h: "h = Hook body st" by (cases h)
  obtain r s1 where ex: "exec_all None body s = (r, s1)" by (cases "exec_all None body s")
  obtain p2 tr2 s2 where rest: "run_hooks hs s1 = (p2, tr2, s2)"
    by (cases "run_hooks hs s1")
  from Cons.prems h ex rest
  have "r = None \<and> st = Resolves \<and> p2 = Fulfilled u \<and> tr = HookCalled h # tr2"
    by (auto split: option.splits settle.splits)
  with Cons.IH [of s1 tr2 s2] rest show ?case by simp
qed

lemma run_hooks_only_hooks:
  "run_hooks hs s = (p, tr, s') \<Longrightarrow> set tr \<subseteq> HookCalled ` set hs"
proof -
  assume "run_hooks hs s = (p, tr, s')"
  then have "tr = map HookCalled (take (length tr) hs)" by (rule run_hooks_trace)
  then have "set tr = HookCalled ` set (take (length tr) hs)" by (metis set_map)
  then show ?thesis using set_take_subset [of "length tr" hs] by blast
qed

lemma run_hooks_first:
  "run_hooks hs s = (p, tr, s') \<Longrightarrow> hs \<noteq> [] \<Longrightarrow> tr \<noteq> []"
  by (cases hs; cases "hd hs")
     (auto split: prod.splits option.splits settle.splits)

text \<open>The loop ends at the first hook that does not resolve: the hooks after it are not called.\<close>

lemma run_hooks_Cons_resolved:
  "run_hooks [h] s = (Fulfilled (), tr, sm) \<Longrightarrow>
   run_hooks (h # hs) s =
     (case run_hooks hs sm of (p, tr2, s2) \<Rightarrow> (p, HookCalled h # tr2, s2))"
  by (cases h) (auto split: prod.splits option.splits settle.splits)

lemma run_hooks_Cons_unresolved:
  "run_hooks [h] s = (p, tr, sm) \<Longrightarrow> p \<noteq> Fulfilled () \<Longrightarrow>
   run_hooks (h # hs) s = (p, [HookCalled h], sm)"
  by (cases h) (auto split: prod.splits option.splits settle.splits)

lemma run_hooks_single_trace:
  "run_hooks [h] s = (p, tr, sm) \<Longrightarrow> tr = [HookCalled h]"
  by (cases h) (auto split: prod.splits option.splits settle.splits)

lemma run_hooks_stops:
  "run_hooks hs s = (p, tr, s') \<Longrightarrow> p \<noteq> Fulfilled () \<Longrightarrow>
   \<exists>k<length hs. \<exists>sm.
     tr = map HookCalled (take (Suc k) hs) \<and>
     run_hooks (take k hs) s = (Fulfilled (), map HookCalled (take k hs), sm) \<and>
     run_hooks [hs ! k] sm = (p, [HookCalled (hs ! k)], s')"
proof (induction hs arbitrary: s tr)
  case Nil
  then show ?case by simp
next
  case (Cons h hs)
  obtain p1 tr1 s1 where one: "run_hooks [h] s = (p1, tr1, s1)"
    by (cases "run_hooks [h] s")
  then have tr1: "tr1 = [HookCalled h]" by (rule run_hooks_single_trace)
  show ?case
  proof (cases "p1 = Fulfilled ()")
    case False
    with one Cons.prems(1) have "p = p1" "tr = [HookCalled h]" "s' = s1"
      by (simp_all add: run_hooks_Cons_unresolved)
    with one tr1 show ?thesis
      by (intro exI [of _ 0]) simp
  next
    case True
    obtain p2 tr2 s2 where rest: "run_hooks hs s1 = (p2, tr2, s2)"
      by (cases "run_hooks hs s1")
    from one True rest Cons.prems(1) have eq: "p = p2" "tr = HookCalled h # tr2" "s' = s2"
      by (simp_all add: run_hooks_Cons_resolved)
    from Cons.IH [of s1 tr2] rest eq Cons.prems(2)
    obtain k sm where k: "k < length hs"
      and t: "tr2 = map HookCalled (take (Suc k) hs)"
      and pre: "run_hooks (take k hs) s1 = (Fulfilled (), map HookCalled (take k hs), sm)"
      and last: "run_hooks [hs ! k] sm = (p, [HookCalled (hs ! k)], s')"
      by auto
    have "run_hooks (take (Suc k) (h # hs)) s =
        (Fulfilled (), map HookCalled (take (Suc k) (h # hs)), sm)"
      using one True pre by (simp add: run_hooks_Cons_resolved)
    with k t last eq show ?thesis
      by (intro exI [of _ "Suc k"]) auto
  qed
qed

text \<open>Neither a declaration nor \<open>run\<close> writes the runner options: only \<open>test.configure\<close> does.\<close>

lemma addTest_runnerOptions [simp]: "runnerOptions (addTest title cb opt s) = runnerOptions s"
  by (cases "activeGroup s") (simp_all add: addTest_no_active addTest_active)

lemma exec_runnerOptions:
  "runnerOptions (snd (exec cur d s)) = runnerOptions s"
  "runnerOptions (snd (exec_all cur ds s)) = runnerOptions s"
proof (induction cur d s and cur ds s rule: exec_exec_all.induct)
  case (6 cur title body s)
  let ?n = "length (groups s)"
  let ?s1 = "s\<lparr> activeGroup := Some ?n,
                 groups := groups s @ [new_Group title (runnerOptions s)] \<rparr>"
  have "runnerOptions (snd (exec_all (Some ?n) body ?s1)) = runnerOptions ?s1" by (rule 6)
  then show ?case
    by (auto simp: group_def Let_def split: prod.splits option.splits)
next
  case (7 cur k cb s)
  then show ?case by (auto split: option.splits)
next
  case (10 cur d ds s)
  show ?case
  proof (cases "exec cur d s")
    case (Pair r s1)
    show ?thesis
    proof (cases r)
      case None
      with Pair 10 have "runnerOptions s1 = runnerOptions s"
        "runnerOptions (snd (exec_all cur ds s1)) = runnerOptions s1" by auto
      then show ?thesis using Pair None by auto
    next
      case (Some e)
      with Pair 10 show ?thesis by auto
    qed
  qed
qed (simp_all add: test_def skip_def skipInCI_def runInCI_def failing_def)

lemma run_hooks_runnerOptions:
  "runnerOptions (snd (snd (run_hooks hs s))) = runnerOptions s"
proof (induction hs arbitrary: s)
  case Nil
  then show ?case by simp
next
  case (Cons h hs)
  obtain body st where h: "h = Hook body st" by (cases h)
  obtain r s1 where ex: "exec_all None body s = (r, s1)" by (cases "exec_all None body s")
  have s1: "runnerOptions s1 = runnerOptions s"
    using exec_runnerOptions(2) [of None body s] ex by simp
  from Cons.IH [of s1] s1 show ?case
    by (auto simp: h ex split: option.splits settle.splits prod.splits)
qed

lemma require_all_runnerOptions:
  "runnerOptions (snd (snd (require_all req files s))) = runnerOptions s"
proof (induction files arbitrary: s)
  case Nil
  then show ?case by simp
next
  case (Cons f fs)
  obtain r s1 where ex: "exec_all None (req f) s = (r, s1)"
    by (cases "exec_all None (req f) s")
  have s1: "runnerOptions s1 = runnerOptions s"
    using exec_runnerOptions(2) [of None "req f" s] ex by simp
  from Cons.IH [of s1] s1 show ?case
    by (auto simp: ex split: option.splits prod.splits)
qed

lemma run_keeps_runnerOptions:
  "runnerOptions (final (run env exitProcess s)) = runnerOptions s"
proof -
  obtain p1 tr1 s1 where b: "run_hooks (beforeHooks s) s = (p1, tr1, s1)"
    by (cases "run_hooks (beforeHooks s) s")
  have s1: "runnerOptions s1 = runnerOptions s"
    using run_hooks_runnerOptions [of "beforeHooks s" s] b by simp
  have load: "case run_load env s of
        Inl stopped \<Rightarrow> runnerOptions (final stopped) = runnerOptions s
      | Inr (tr, s2) \<Rightarrow> runnerOptions s2 = runnerOptions s"
  proof (cases p1)
    case (Fulfilled u)
    show ?thesis
    proof (cases "loadFiles env (loader s1)")
      case (Fulfilled files)
      obtain r tr2 s2 where q: "require_all (require env) files s1 = (r, tr2, s2)"
        by (cases "require_all (require env) files s1")
      have "runnerOptions s2 = runnerOptions s1"
        using require_all_runnerOptions [of "require env" files s1] q by simp
      with s1 b \<open>p1 = Fulfilled u\<close> Fulfilled q show ?thesis
        by (cases r) (simp_all add: run_load_def Let_def)
    qed (use s1 b \<open>p1 = Fulfilled u\<close> in \<open>simp_all add: run_load_def Let_def\<close>)
  qed (use s1 b in \<open>simp_all add: run_load_def Let_def\<close>)
  show ?thesis
  proof (cases "run_load env s")
    case (Inl stopped)
    with load show ?thesis by (simp add: run_def)
  next
    case (Inr c)
    obtain tr s2 where c: "c = (tr, s2)" by (cases c)
    with load Inr have s2: "runnerOptions s2 = runnerOptions s" by simp
    obtain p3 tr3 s3 where a: "run_hooks (afterHooks s2) s2 = (p3, tr3, s3)"
      by (cases "run_hooks (afterHooks s2) s2")
    have s3: "runnerOptions s3 = runnerOptions s2"
      using run_hooks_runnerOptions [of "afterHooks s2" s2] a by simp
    show ?thesis
      using Inr c a s2 s3
      by (cases "runner_run env (groups s2)"; cases p3)
         (simp_all add: run_def run_tests_def run_finish_def)
  qed
qed

section \<open>Claims about the configuration\<close>

text \<open>
  Claim C5. A group's configuration (bail, timeout, grep) is a snapshot of the global
  options taken when the group is created, by \<open>test.group\<close> or as the implicit root
  group; nothing that is declared or configured afterwards, nor a later change of the
  global options, changes these values in a group that exists.
\<close>

theorem group_configuration_is_snapshot:
  "snapshot (new_Group title options) = config_of options \<and>
   (activeGroup s = None \<longrightarrow>
      snapshot (last (groups (addTest t cb opt s))) = config_of (runnerOptions s)) \<and>
   snapshot (groups (snd (exec cur (DGroup title body) s)) ! length (groups s)) =
     config_of (runnerOptions s) \<and>
   (i < length (groups s) \<longrightarrow>
      snapshot (groups (snd (exec_all cur ds s)) ! i) = snapshot (groups s ! i) \<and>
      snapshot (groups (snd (configure newRegExp copts s)) ! i) = snapshot (groups s ! i) \<and>
      snapshot (groups (s\<lparr> runnerOptions := ro \<rparr>) ! i) = snapshot (groups s ! i))"
proof -
  have made: "snapshot (new_Group title' options') = config_of options'" for title' options'
    by (simp add: snapshot_def config_of_def new_Group_def)
  have root: "snapshot (last (groups (addTest t cb opt s))) = config_of (runnerOptions s)"
    if "activeGroup s = None"
    using that by (simp add: addTest_no_active made)
  let ?n = "length (groups s)"
  let ?s1 = "s\<lparr> activeGroup := Some ?n,
                 groups := groups s @ [new_Group title (runnerOptions s)] \<rparr>"
  have "extends ?s1 (snd (exec cur (DGroup title body) s))"
    by (rule group_pushed)
  then have "snapshot (groups (snd (exec cur (DGroup title body) s)) ! ?n) =
      snapshot (groups ?s1 ! ?n)"
    by (simp add: extends_def)
  then have pushed: "snapshot (groups (snd (exec cur (DGroup title body) s)) ! ?n) =
      config_of (runnerOptions s)"
    by (simp add: made)
  have kept: "snapshot (groups (snd (exec_all cur ds s)) ! i) = snapshot (groups s ! i)"
    if "i < length (groups s)"
    using exec_extends(2) [of s cur ds] that by (simp add: extends_def)
  show ?thesis
    using made root pushed kept by (simp add: configure_groups)
qed

theorem group_configuration_is_snapshot_witness:
  "activeGroup initial = None \<and>
   snapshot (last (groups (addTest ''adds'' 1 None initial))) = (False, 2000, None) \<and>
   (0::nat) < length (groups (test ''adds'' 1 initial)) \<and>
   snapshot (groups ((test ''adds'' 1 initial)
      \<lparr> runnerOptions := \<lparr> bail = True, timeout = 50, grep = Some (RegExp ''adds'' []) \<rparr> \<rparr>) ! 0) =
     (False, 2000, None)"
proof -
  have idle: "activeGroup initial = None" by (simp add: initial_def)
  have one: "(0::nat) < length (groups (test ''adds'' 1 initial))"
    by (simp add: test_def addTest_def initial_def)
  have cfg: "config_of (runnerOptions initial) = (False, 2000, None)"
    by (simp add: config_of_def initial_def)
  have now: "snapshot (groups (test ''adds'' 1 initial) ! 0) = (False, 2000, None)"
    by (simp add: test_def addTest_def initial_def snapshot_def new_Group_def Group_test_def)
  from group_configuration_is_snapshot [where s = initial and t = "''adds''" and cb = 1 and opt = None]
    idle cfg
  have a: "snapshot (last (groups (addTest ''adds'' 1 None initial))) = (False, 2000, None)"
    by simp
  from group_configuration_is_snapshot [where s = "test ''adds'' 1 initial" and i = 0
      and ro = "\<lparr> bail = True, timeout = 50, grep = Some (RegExp ''adds'' []) \<rparr>"] one now
  have b: "snapshot (groups ((test ''adds'' 1 initial)
      \<lparr> runnerOptions := \<lparr> bail = True, timeout = 50, grep = Some (RegExp ''adds'' []) \<rparr> \<rparr>) ! 0) =
     (False, 2000, None)"
    by simp
  from idle a one b show ?thesis by (simp only: simp_thms)
qed

text \<open>
  Claim C3, as the code has it. When a group exists, \<open>test.configure\<close> throws and
  leaves the state as it was. When no group exists, it returns normally exactly when
  its \<open>before\<close> and \<open>after\<close> options pass the array check and its \<open>grep\<close>
  option compiles.
\<close>

theorem configure_throws:
  "(groups s \<noteq> [] \<longrightarrow>
      configure newRegExp options s =
        (Some (JError ''test.configure must be called before creating any tests''), s)) \<and>
   (groups s = [] \<longrightarrow>
      (fst (configure newRegExp options s) = None \<longleftrightarrow>
         passes_ow (o_before options) \<and> passes_ow (o_after options) \<and>
         grep_compiles newRegExp (o_grep options)))"
  by (simp add: configure_def and_then_result set_before_result set_after_result set_grep_result)

theorem configure_throws_witness:
  "groups (test ''adds'' 1 initial) \<noteq> [] \<and>
   configure compile_any (no_options\<lparr> o_bail := Some True \<rparr>) (test ''adds'' 1 initial) =
     (Some (JError ''test.configure must be called before creating any tests''),
      test ''adds'' 1 initial) \<and>
   groups initial = [] \<and>
   fst (configure compile_any (no_options\<lparr> o_bail := Some True \<rparr>) initial) = None"
proof -
  have declared: "groups (test ''adds'' 1 initial) \<noteq> []"
    by (simp add: test_def addTest_def initial_def)
  have fresh: "groups initial = []"
    by (simp add: initial_def)
  have ok: "passes_ow (o_before (no_options\<lparr> o_bail := Some True \<rparr>)) \<and>
      passes_ow (o_after (no_options\<lparr> o_bail := Some True \<rparr>)) \<and>
      grep_compiles compile_any (o_grep (no_options\<lparr> o_bail := Some True \<rparr>))"
    by (simp add: no_options_def passes_ow_def grep_compiles_def)
  from configure_throws [of "test ''adds'' 1 initial" compile_any "no_options\<lparr> o_bail := Some True \<rparr>"]
    declared
  have a: "configure compile_any (no_options\<lparr> o_bail := Some True \<rparr>) (test ''adds'' 1 initial) =
     (Some (JError ''test.configure must be called before creating any tests''),
      test ''adds'' 1 initial)"
    by blast
  from configure_throws [of initial compile_any "no_options\<lparr> o_bail := Some True \<rparr>"] fresh ok
  have b: "fst (configure compile_any (no_options\<lparr> o_bail := Some True \<rparr>) initial) = None"
    by blast
  from declared a fresh b show ?thesis by (simp only: simp_thms)
qed

text \<open>
  The claim as stated lets no call throw while no group exists. A \<open>before\<close> option
  that is truthy and not an array is refused by the array check.
\<close>

theorem configure_throws_counterexample:
  "groups initial = [] \<and>
   fst (configure compile_any (no_options\<lparr> o_before := Some (NotArray (JStr ''setup'')) \<rparr>) initial) =
     Some (JError ''Expected `configure.before` to be of type `array`'')"
  by (simp add: configure_def set_before_def no_options_def initial_def)

text \<open>
  What \<open>test.configure\<close> stores, in a call that gets past the group check and the
  array checks: a pre-built pattern as it is, a raw string that is not empty and that
  \<open>new RegExp\<close> accepts compiled, and nothing when \<open>grep\<close> is absent; the stored
  pattern is undefined at the start, and then the filter matches every title.
\<close>

lemma configure_stores_grep:
  "groups s = [] \<Longrightarrow> passes_ow (o_before options) \<Longrightarrow> passes_ow (o_after options) \<Longrightarrow>
   (o_grep options = Some (GrepRegExp re) \<longrightarrow>
      fst (configure newRegExp options s) = None \<and>
      grep (runnerOptions (snd (configure newRegExp options s))) = Some re) \<and>
   (o_grep options = Some (GrepString str) \<and> str \<noteq> [] \<and> newRegExp str = Inr re \<longrightarrow>
      fst (configure newRegExp options s) = None \<and>
      grep (runnerOptions (snd (configure newRegExp options s))) = Some re) \<and>
   (o_grep options = None \<longrightarrow>
      fst (configure newRegExp options s) = None \<and>
      grep (runnerOptions (snd (configure newRegExp options s))) = grep (runnerOptions s)) \<and>
   grep (runnerOptions initial) = None \<and>
   grep_filter matches (grep (runnerOptions initial)) title"
proof -
  assume "groups s = []" "passes_ow (o_before options)" "passes_ow (o_after options)"
  then obtain s1 where s1: "grep (runnerOptions s1) = grep (runnerOptions s)"
    and c: "configure newRegExp options s = set_grep newRegExp options s1"
    using configure_is_set_grep by blast
  have "grep (runnerOptions initial) = None"
    by (simp add: initial_def)
  moreover have "grep_filter matches (grep (runnerOptions initial)) title"
    by (simp add: initial_def grep_filter_def)
  ultimately show ?thesis
    using set_grep_cases [of options newRegExp s1 re str] s1 by (auto simp: c)
qed

text \<open>
  Claim C6, where the code departs from it. The claim has every raw string that
  \<open>test.configure\<close> receives compiled to a pattern. The empty string is a raw string
  that \<open>new RegExp\<close> accepts, but the call tests \<open>options.grep\<close> for truthiness and
  skips it: no pattern is stored, and a pattern stored by an earlier call stays in force.
  The options beside it are tested for being defined, so the falsy values 0 and false
  of \<open>timeout\<close> and \<open>bail\<close> are applied.
\<close>

theorem empty_grep_not_compiled:
  "compile_any [] = Inr (RegExp [] []) \<and>
   fst (configure compile_any (no_options\<lparr> o_grep := Some (GrepString []) \<rparr>) initial) = None \<and>
   grep (runnerOptions (snd (configure compile_any
      (no_options\<lparr> o_grep := Some (GrepString []) \<rparr>) initial))) = None \<and>
   grep (runnerOptions (snd (configure compile_any
      (no_options\<lparr> o_grep := Some (GrepString []) \<rparr>)
      (snd (configure compile_any
         (no_options\<lparr> o_grep := Some (GrepString ''adds'') \<rparr>) initial))))) =
     Some (RegExp ''adds'' []) \<and>
   timeout (runnerOptions (snd (configure compile_any
      (no_options\<lparr> o_timeout := Some 0 \<rparr>) initial))) = 0 \<and>
   bail (runnerOptions (snd (configure compile_any (no_options\<lparr> o_bail := Some False \<rparr>)
      (initial\<lparr> runnerOptions := (runnerOptions initial)\<lparr> bail := True \<rparr> \<rparr>)))) = False"
  by (simp add: configure_def set_before_def set_after_def set_grep_def set_reporterFn_def
      set_bail_def set_timeout_def set_files_def set_filter_def no_options_def initial_def
      compile_any_def)

section \<open>Claims about \<open>run\<close>\<close>

text \<open>
  Claim C8. When groups exist at the moment the suite files are listed and the loader
  finds at least one file, \<open>run\<close> prints the configuration error and exits with code
  1; no file has been required and \<open>runner.run()\<close> has not been called.
\<close>

theorem run_guard_exits:
  "run_hooks (beforeHooks s) s = (Fulfilled (), tr1, s1) \<Longrightarrow>
   loadFiles env (loader s1) = Fulfilled files \<Longrightarrow>
   files \<noteq> [] \<Longrightarrow> groups s1 \<noteq> [] \<Longrightarrow>
   outcome (run env exitProcess s) = Exited 1 \<and>
   trace (run env exitProcess s) =
     [RunnerCreated, ReporterSet (reporterFn s)] @ tr1 @
     [LoadFilesCalled, ConsoleLog guard_message, ProcessExit 1] \<and>
   RunnerRun \<notin> set (trace (run env exitProcess s)) \<and>
   (\<forall>file. Required file \<notin> set (trace (run env exitProcess s)))"
proof -
  assume hooks: "run_hooks (beforeHooks s) s = (Fulfilled (), tr1, s1)"
    and load: "loadFiles env (loader s1) = Fulfilled files"
    and found: "files \<noteq> []" and declared: "groups s1 \<noteq> []"
  have r: "run env exitProcess s =
      \<lparr> outcome = Exited 1,
        trace = [RunnerCreated, ReporterSet (reporterFn s)] @ tr1 @
          [LoadFilesCalled, ConsoleLog guard_message, ProcessExit 1],
        final = s1 \<rparr>"
    using hooks load found declared by (simp add: run_def run_load_def)
  have "set tr1 \<subseteq> HookCalled ` set (beforeHooks s)"
    using hooks by (rule run_hooks_only_hooks)
  then have "RunnerRun \<notin> set tr1" "\<And>file. Required file \<notin> set tr1"
    by auto
  then show ?thesis
    unfolding r by simp
qed

theorem run_guard_exits_witness:
  "run_hooks (beforeHooks (test ''adds'' 1 initial)) (test ''adds'' 1 initial) =
     (Fulfilled (), [], test ''adds'' 1 initial) \<and>
   loadFiles found_env (loader (test ''adds'' 1 initial)) = Fulfilled [''math.spec.js''] \<and>
   groups (test ''adds'' 1 initial) \<noteq> [] \<and>
   outcome (run found_env True (test ''adds'' 1 initial)) = Exited 1 \<and>
   trace (run found_env True (test ''adds'' 1 initial)) =
     [RunnerCreated, ReporterSet listReporter, LoadFilesCalled, ConsoleLog guard_message,
      ProcessExit 1]"
proof -
  let ?s = "test ''adds'' 1 initial"
  have hooks: "run_hooks (beforeHooks ?s) ?s = (Fulfilled (), [], ?s)"
    by (simp add: test_def addTest_def initial_def)
  have load: "loadFiles found_env (loader ?s) = Fulfilled [''math.spec.js'']"
    by (simp add: found_env_def quiet_env_def)
  have found: "[''math.spec.js''] \<noteq> []" by simp
  have declared: "groups ?s \<noteq> []"
    by (simp add: test_def addTest_def initial_def)
  have rep: "reporterFn ?s = listReporter"
    by (simp add: test_def addTest_def initial_def)
  from run_guard_exits [OF hooks load found declared, of True] rep
  have "outcome (run found_env True ?s) = Exited 1 \<and>
      trace (run found_env True ?s) =
        [RunnerCreated, ReporterSet listReporter, LoadFilesCalled, ConsoleLog guard_message,
         ProcessExit 1]"
    by simp
  with hooks load declared show ?thesis by (simp only: simp_thms)
qed

text \<open>
  Claim C1, as the code has it. When \<open>run\<close> is called with \<open>exitProcess\<close> true
  and reaches \<open>runner.run()\<close>, the promise of \<open>runner.run()\<close> settles, a value it
  rejects with is truthy, and every after hook resolves, the process exits with code 0
  if \<open>hasErrors\<close> is false and \<open>runner.run()\<close> was fulfilled, and with code 1
  otherwise.
\<close>

theorem run_exit_code:
  "run_load env s = Inr (tr, s2) \<Longrightarrow>
   runner_run env (groups s2) \<noteq> Forever \<Longrightarrow>
   \<forall>e. runner_run env (groups s2) = Rejected e \<longrightarrow> truthy e \<Longrightarrow>
   run_hooks (afterHooks s2) s2 = (Fulfilled (), tr3, s3) \<Longrightarrow>
   outcome (run env True s) =
     Exited (if \<not> hasErrors env \<and> runner_run env (groups s2) = Fulfilled () then 0 else 1)"
  by (cases "runner_run env (groups s2)")
     (simp_all add: run_def run_tests_def run_finish_def)

theorem run_exit_code_witness:
  "run_load quiet_env initial =
     Inr ([RunnerCreated, ReporterSet listReporter, LoadFilesCalled], initial) \<and>
   runner_run quiet_env (groups initial) \<noteq> Forever \<and>
   run_hooks (afterHooks initial) initial = (Fulfilled (), [], initial) \<and>
   outcome (run quiet_env True initial) = Exited 0 \<and>
   outcome (run (quiet_env\<lparr> hasErrors := True \<rparr>) True initial) = Exited 1 \<and>
   outcome (run boom_env True initial) = Exited 1"
proof -
  have load: "run_load quiet_env initial =
      Inr ([RunnerCreated, ReporterSet listReporter, LoadFilesCalled], initial)"
    by (simp add: run_load_def quiet_env_def initial_def)
  have load': "run_load (quiet_env\<lparr> hasErrors := True \<rparr>) initial =
      Inr ([RunnerCreated, ReporterSet listReporter, LoadFilesCalled], initial)"
    by (simp add: run_load_def quiet_env_def initial_def)
  have settles: "runner_run quiet_env (groups initial) \<noteq> Forever"
    and settles': "runner_run (quiet_env\<lparr> hasErrors := True \<rparr>) (groups initial) \<noteq> Forever"
    by (simp_all add: quiet_env_def)
  have truthy: "\<forall>e. runner_run quiet_env (groups initial) = Rejected e \<longrightarrow> truthy e"
    and truthy': "\<forall>e. runner_run (quiet_env\<lparr> hasErrors := True \<rparr>) (groups initial) = Rejected e
        \<longrightarrow> truthy e"
    by (simp_all add: quiet_env_def)
  have after: "run_hooks (afterHooks initial) initial = (Fulfilled (), [], initial)"
    by (simp add: initial_def)
  have passes: "outcome (run quiet_env True initial) = Exited 0"
    using run_exit_code [OF load settles truthy after] by (simp add: quiet_env_def)
  have fails: "outcome (run (quiet_env\<lparr> hasErrors := True \<rparr>) True initial) = Exited 1"
    using run_exit_code [OF load' settles' truthy' after] by simp
  have load'': "run_load boom_env initial =
      Inr ([RunnerCreated, ReporterSet listReporter, LoadFilesCalled], initial)"
    by (simp add: run_load_def boom_env_def quiet_env_def initial_def)
  have settles'': "runner_run boom_env (groups initial) \<noteq> Forever"
    and truthy'': "\<forall>e. runner_run boom_env (groups initial) = Rejected e \<longrightarrow> truthy e"
    by (simp_all add: boom_env_def quiet_env_def)
  have throws: "outcome (run boom_env True initial) = Exited 1"
    using run_exit_code [OF load'' settles'' truthy'' after]
    by (simp add: boom_env_def quiet_env_def)
  from load settles after passes fails throws show ?thesis by (simp only: simp_thms)
qed

text \<open>
  The claim as stated covers every call. When suite files are found while groups exist,
  the process exits with code 1 although the runner has recorded no failure and
  \<open>runner.run()\<close> was never called.
\<close>

theorem run_exit_code_counterexample:
  "\<not> hasErrors found_env \<and>
   RunnerRun \<notin> set (trace (run found_env True (test ''adds'' 1 initial))) \<and>
   outcome (run found_env True (test ''adds'' 1 initial)) = Exited 1"
  by (simp add: found_env_def quiet_env_def run_def run_load_def test_def addTest_def initial_def)

text \<open>
  Claim C2, as the code has it. A value \<open>runner.run()\<close> rejects with is caught: the
  after hooks are then called in order, at least the first of them, and the calls end at
  the first hook that does not resolve. When all of them resolve, every after hook has
  been called, a call with \<open>exitProcess\<close> true exits with code 1 if the caught value
  is truthy, and a call with \<open>exitProcess\<close> false returns. When one of them does not
  resolve, the hooks before it have resolved, no hook after it is called and the process
  does not exit: \<open>run\<close> rejects with the value of that hook, or stays pending with it.
\<close>

theorem hard_exception_captured:
  "run_load env s = Inr (tr, s2) \<Longrightarrow>
   runner_run env (groups s2) = Rejected e \<Longrightarrow>
   run_hooks (afterHooks s2) s2 = (p, tr3, s3) \<Longrightarrow>
   (\<exists>rest. trace (run env exitProcess s) = tr @ [RunnerRun] @ tr3 @ rest) \<and>
   tr3 = map HookCalled (take (length tr3) (afterHooks s2)) \<and>
   (afterHooks s2 \<noteq> [] \<longrightarrow> tr3 \<noteq> []) \<and>
   (p = Fulfilled () \<longrightarrow>
      tr3 = map HookCalled (afterHooks s2) \<and>
      (truthy e \<longrightarrow> outcome (run env True s) = Exited 1) \<and>
      outcome (run env False s) = Returned) \<and>
   (p \<noteq> Fulfilled () \<longrightarrow>
      (\<exists>k<length (afterHooks s2). \<exists>sm.
         tr3 = map HookCalled (take (Suc k) (afterHooks s2)) \<and>
         run_hooks (take k (afterHooks s2)) s2 =
           (Fulfilled (), map HookCalled (take k (afterHooks s2)), sm) \<and>
         run_hooks [afterHooks s2 ! k] sm = (p, [HookCalled (afterHooks s2 ! k)], s3)) \<and>
      trace (run env exitProcess s) = tr @ [RunnerRun] @ tr3 \<and>
      outcome (run env exitProcess s) =
        (case p of Rejected v \<Rightarrow> Thrown v | _ \<Rightarrow> Unsettled))"
proof -
  assume load: "run_load env s = Inr (tr, s2)"
    and thrown: "runner_run env (groups s2) = Rejected e"
    and after: "run_hooks (afterHooks s2) s2 = (p, tr3, s3)"
  have "\<exists>rest. trace (run env exitProcess s) = tr @ [RunnerRun] @ tr3 @ rest"
    using load thrown after
    by (cases p) (simp_all add: run_def run_tests_def run_finish_def)
  moreover have "tr3 = map HookCalled (take (length tr3) (afterHooks s2))"
    using after by (rule run_hooks_trace)
  moreover have "tr3 \<noteq> []" if "afterHooks s2 \<noteq> []"
    using after that by (rule run_hooks_first)
  moreover have "tr3 = map HookCalled (afterHooks s2)" if "p = Fulfilled ()"
    using after that run_hooks_fulfilled by blast
  moreover have "outcome (run env True s) = Exited 1" if "p = Fulfilled ()" "truthy e"
    using load thrown after that by (simp add: run_def run_tests_def run_finish_def)
  moreover have "outcome (run env False s) = Returned" if "p = Fulfilled ()"
    using load thrown after that by (simp add: run_def run_tests_def run_finish_def)
  moreover have "\<exists>k<length (afterHooks s2). \<exists>sm.
         tr3 = map HookCalled (take (Suc k) (afterHooks s2)) \<and>
         run_hooks (take k (afterHooks s2)) s2 =
           (Fulfilled (), map HookCalled (take k (afterHooks s2)), sm) \<and>
         run_hooks [afterHooks s2 ! k] sm = (p, [HookCalled (afterHooks s2 ! k)], s3)"
    if "p \<noteq> Fulfilled ()"
    using after that by (rule run_hooks_stops)
  moreover have "trace (run env exitProcess s) = tr @ [RunnerRun] @ tr3"
    if "p \<noteq> Fulfilled ()"
    using load thrown after that
    by (cases p) (simp_all add: run_def run_tests_def)
  moreover have "outcome (run env exitProcess s) =
        (case p of Rejected v \<Rightarrow> Thrown v | _ \<Rightarrow> Unsettled)"
    if "p \<noteq> Fulfilled ()"
    using load thrown after that
    by (cases p) (simp_all add: run_def run_tests_def)
  ultimately show ?thesis by blast
qed

theorem hard_exception_captured_witness:
  "run_load boom_env (initial\<lparr> afterHooks := [Hook [] Resolves] \<rparr>) =
     Inr ([RunnerCreated, ReporterSet listReporter, LoadFilesCalled],
          initial\<lparr> afterHooks := [Hook [] Resolves] \<rparr>) \<and>
   runner_run boom_env (groups (initial\<lparr> afterHooks := [Hook [] Resolves] \<rparr>)) =
     Rejected (JError ''boom'') \<and>
   run_hooks [Hook [] Resolves] (initial\<lparr> afterHooks := [Hook [] Resolves] \<rparr>) =
     (Fulfilled (), [HookCalled (Hook [] Resolves)], initial\<lparr> afterHooks := [Hook [] Resolves] \<rparr>) \<and>
   outcome (run boom_env True (initial\<lparr> afterHooks := [Hook [] Resolves] \<rparr>)) = Exited 1 \<and>
   outcome (run boom_env False (initial\<lparr> afterHooks := [Hook [] Resolves] \<rparr>)) = Returned \<and>
   run_hooks teardown_hooks (initial\<lparr> afterHooks := teardown_hooks \<rparr>) =
     (Rejected (JStr ''teardown failed''),
      [HookCalled (Hook [] (Rejects (JStr ''teardown failed'')))],
      initial\<lparr> afterHooks := teardown_hooks \<rparr>) \<and>
   trace (run boom_env True (initial\<lparr> afterHooks := teardown_hooks \<rparr>)) =
     [RunnerCreated, ReporterSet listReporter, LoadFilesCalled, RunnerRun,
      HookCalled (Hook [] (Rejects (JStr ''teardown failed'')))] \<and>
   outcome (run boom_env False (initial\<lparr> afterHooks := teardown_hooks \<rparr>)) =
     Thrown (JStr ''teardown failed'')"
proof -
  let ?s = "initial\<lparr> afterHooks := [Hook [] Resolves] \<rparr>"
  let ?t = "initial\<lparr> afterHooks := teardown_hooks \<rparr>"
  have load: "run_load boom_env ?s =
      Inr ([RunnerCreated, ReporterSet listReporter, LoadFilesCalled], ?s)"
    by (simp add: run_load_def boom_env_def quiet_env_def initial_def)
  have thrown: "runner_run boom_env (groups ?s) = Rejected (JError ''boom'')"
    by (simp add: boom_env_def quiet_env_def)
  have after: "run_hooks (afterHooks ?s) ?s = (Fulfilled (), [HookCalled (Hook [] Resolves)], ?s)"
    by simp
  have after': "run_hooks [Hook [] Resolves] ?s = (Fulfilled (), [HookCalled (Hook [] Resolves)], ?s)"
    by simp
  from hard_exception_captured [OF load thrown after, of True]
  have ok: "outcome (run boom_env True ?s) = Exited 1 \<and> outcome (run boom_env False ?s) = Returned"
    by simp
  have load_t: "run_load boom_env ?t =
      Inr ([RunnerCreated, ReporterSet listReporter, LoadFilesCalled], ?t)"
    by (simp add: run_load_def boom_env_def quiet_env_def initial_def)
  have thrown_t: "runner_run boom_env (groups ?t) = Rejected (JError ''boom'')"
    by (simp add: boom_env_def quiet_env_def)
  have after_t: "run_hooks (afterHooks ?t) ?t =
      (Rejected (JStr ''teardown failed''),
       [HookCalled (Hook [] (Rejects (JStr ''teardown failed'')))], ?t)"
    by (simp add: teardown_hooks_def)
  have after_t': "run_hooks teardown_hooks ?t =
      (Rejected (JStr ''teardown failed''),
       [HookCalled (Hook [] (Rejects (JStr ''teardown failed'')))], ?t)"
    by (simp add: teardown_hooks_def)
  from hard_exception_captured [OF load_t thrown_t after_t, of True]
  have tr_t: "trace (run boom_env True ?t) =
     [RunnerCreated, ReporterSet listReporter, LoadFilesCalled, RunnerRun,
      HookCalled (Hook [] (Rejects (JStr ''teardown failed'')))]"
    by simp
  from hard_exception_captured [OF load_t thrown_t after_t, of False]
  have out_t: "outcome (run boom_env False ?t) = Thrown (JStr ''teardown failed'')"
    by simp
  from load thrown after' ok after_t' tr_t out_t show ?thesis by (simp only: simp_thms)
qed

text \<open>
  The claim as stated has every after hook executed and the process exit with code 1.
  When the first after hook rejects, the second one is never called and the rejection
  leaves \<open>run\<close>.
\<close>

theorem hard_exception_counterexample:
  "runner_run boom_env (groups (initial\<lparr> afterHooks := teardown_hooks \<rparr>)) =
     Rejected (JError ''boom'') \<and>
   Hook [] Resolves \<in> set (afterHooks (initial\<lparr> afterHooks := teardown_hooks \<rparr>)) \<and>
   HookCalled (Hook [] Resolves) \<notin>
     set (trace (run boom_env True (initial\<lparr> afterHooks := teardown_hooks \<rparr>))) \<and>
   outcome (run boom_env True (initial\<lparr> afterHooks := teardown_hooks \<rparr>)) =
     Thrown (JStr ''teardown failed'')"
  by (simp add: boom_env_def quiet_env_def teardown_hooks_def run_def run_load_def
      run_tests_def initial_def)

text \<open>
  The exit decision tests the caught value for truthiness: a rejection with a falsy
  value, here \<open>undefined\<close>, with no failure recorded ends in exit code 0.
\<close>

lemma falsy_rejection_exits_zero:
  "outcome (run (quiet_env\<lparr> runner_run := (\<lambda>gs. Rejected JUndefined) \<rparr>) True initial) =
     Exited 0"
  by (simp add: quiet_env_def run_def run_load_def run_tests_def run_finish_def initial_def)

end
